theory Spec2Isabelle
  imports Complex_Main "HOL-Library.Multiset"
begin

section \<open>Phonetic versioning: the base-128 codec and the digit interleaver\<close>

text \<open>
  The functions of \<^verbatim>\<open>src/encoder.js\<close>. A JavaScript number that holds an integer is an
  \<^typ>\<open>int\<close>; the arithmetic of the codec (remainder and floored division by 128,
  multiplication by 128 plus a digit) is exact on them. An array whose slots may be
  unassigned is a list of options: \<open>None\<close> is a slot that reads as \<^verbatim>\<open>undefined\<close>, and a
  number that may be \<^verbatim>\<open>NaN\<close> is an \<^typ>\<open>int option\<close> in the same way.
\<close>

subsection \<open>toBase128 and fromBase128\<close>

function toBase128_loop :: "int \<Rightarrow> int list \<Rightarrow> int list" where
  "toBase128_loop remaining digits =
     (if remaining > 0
      then toBase128_loop (remaining div 128) ((remaining mod 128) # digits)
      else digits)"
  by pat_completeness auto
termination
  by (relation "measure (\<lambda>(remaining, digits). nat remaining)") auto

declare toBase128_loop.simps [simp del]

definition toBase128 :: "int \<Rightarrow> int list" where
  "toBase128 num = (if num = 0 then [0] else toBase128_loop num [])"

text \<open>
  \<^verbatim>\<open>num = num * 128 + digits[i]\<close>: a slot that reads as \<^verbatim>\<open>undefined\<close> turns the sum into
  \<^verbatim>\<open>NaN\<close>, and \<^verbatim>\<open>NaN\<close> stays \<^verbatim>\<open>NaN\<close>.
\<close>

definition fromBase128_step :: "int option \<Rightarrow> int option \<Rightarrow> int option" where
  "fromBase128_step d num =
     (case num of
        None \<Rightarrow> None
      | Some n \<Rightarrow> (case d of None \<Rightarrow> None | Some v \<Rightarrow> Some (n * 128 + v)))"

definition fromBase128 :: "int option list \<Rightarrow> int option" where
  "fromBase128 digits = fold fromBase128_step digits (Some 0)"

function pad_loop :: "int list \<Rightarrow> int \<Rightarrow> int list" where
  "pad_loop indices minLength =
     (if int (length indices) < minLength
      then pad_loop (0 # indices) minLength
      else indices)"
  by pat_completeness auto
termination
  by (relation "measure (\<lambda>(indices, minLength). nat (minLength - int (length indices)))") auto

declare pad_loop.simps [simp del]

definition encodeToSyllableIndices :: "int \<Rightarrow> int \<Rightarrow> int list" where
  "encodeToSyllableIndices num minLength = pad_loop (toBase128 num) minLength"

definition decodeSyllableIndices :: "int option list \<Rightarrow> int option" where
  "decodeSyllableIndices indices = fromBase128 indices"

subsection \<open>interleaveDigits\<close>

text \<open>
  The \<^verbatim>\<open>while (left <= right)\<close> loop of \<^verbatim>\<open>interleaveDigits\<close>. The right cursor is an
  integer, since \<^verbatim>\<open>right--\<close> may take it below zero; inside the loop it lies between
  \<open>left\<close> and the last index, so every read is in range.
\<close>

function interleave_loop :: "'a list \<Rightarrow> nat \<Rightarrow> int \<Rightarrow> nat \<Rightarrow> 'a list \<Rightarrow> 'a list" where
  "interleave_loop digits left right step result =
     (if int left \<le> right then
        (let cyclePos = step mod 4 in
         if cyclePos = 0 then
           interleave_loop digits left (right - 1) (step + 1) (digits ! nat right # result)
         else if cyclePos = 1 then
           interleave_loop digits left (right - 1) (step + 1) (result @ [digits ! nat right])
         else if cyclePos = 2 then
           interleave_loop digits (left + 1) right (step + 1) (digits ! left # result)
         else
           interleave_loop digits (left + 1) right (step + 1) (result @ [digits ! left]))
      else result)"
  by pat_completeness auto
termination
  by (relation "measure (\<lambda>(digits, left, right, step, result). nat (right + 1 - int left))") auto

declare interleave_loop.simps [simp del]

definition interleaveDigits :: "'a list \<Rightarrow> 'a list" where
  "interleaveDigits digits =
     (if length digits = 0 then []
      else if length digits = 1 then digits
      else interleave_loop digits 1 (int (length digits) - 1) 0 [digits ! 0])"

subsection \<open>deinterleaveDigits\<close>

text \<open>
  \<^verbatim>\<open>result[origPos] = v\<close> on an array with unassigned slots; an index beyond the end
  extends the array with unassigned slots, as JavaScript does.
\<close>

definition array_set :: "'a option list \<Rightarrow> nat \<Rightarrow> 'a \<Rightarrow> 'a option list" where
  "array_set result i v =
     (if i < length result then result[i := Some v]
      else result @ replicate (i - length result) None @ [Some v])"

fun scatter_loop :: "nat list \<Rightarrow> 'a list \<Rightarrow> nat list \<Rightarrow> 'a option list \<Rightarrow> 'a option list" where
  "scatter_loop dummyInterleaved digits [] result = result"
| "scatter_loop dummyInterleaved digits (i # is) result =
     scatter_loop dummyInterleaved digits is
       (array_set result (dummyInterleaved ! i) (digits ! i))"

definition deinterleaveDigits :: "'a list \<Rightarrow> 'a option list" where
  "deinterleaveDigits digits =
     (if length digits = 0 then []
      else if length digits = 1 then map Some digits
      else
        (let n = length digits;
             dummy = [0..<n];
             dummyInterleaved = interleave_loop dummy 1 (int n - 1) 0 [dummy ! 0]
         in scatter_loop dummyInterleaved digits [0..<n] (replicate n None)))"

subsection \<open>The interleaver as the specification words it\<close>

text \<open>
  The four-phase cycle written from the specification's description, to be compared with
  \<open>interleave_loop\<close>: the phase is a number below 4 that advances by one each step and
  wraps modulo 4, where the source counts steps and takes \<open>step mod 4\<close>.
\<close>

function four_phase_cycle :: "'a list \<Rightarrow> nat \<Rightarrow> int \<Rightarrow> nat \<Rightarrow> 'a list \<Rightarrow> 'a list" where
  "four_phase_cycle digits left right phase result =
     (if int left > right then result
      else if phase = 0 then
        four_phase_cycle digits left (right - 1) ((phase + 1) mod 4) (digits ! nat right # result)
      else if phase = 1 then
        four_phase_cycle digits left (right - 1) ((phase + 1) mod 4) (result @ [digits ! nat right])
      else if phase = 2 then
        four_phase_cycle digits (left + 1) right ((phase + 1) mod 4) (digits ! left # result)
      else
        four_phase_cycle digits (left + 1) right ((phase + 1) mod 4) (result @ [digits ! left]))"
  by pat_completeness auto
termination
  by (relation "measure (\<lambda>(digits, left, right, phase, result). nat (right + 1 - int left))") auto

declare four_phase_cycle.simps [simp del]

definition interleave_spec :: "'a list \<Rightarrow> 'a list" where
  "interleave_spec digits =
     (if length digits \<le> 1 then digits
      else four_phase_cycle digits 1 (int (length digits) - 1) 0 [hd digits])"

text \<open>The value \<open>fold(digits, a, (acc, d) => acc * 128 + d)\<close> of a digit sequence.\<close>

definition horner :: "int \<Rightarrow> int list \<Rightarrow> int" where
  "horner a ds = foldl (\<lambda>n v. n * 128 + v) a ds"

section \<open>Configuration and inventory\<close>

text \<open>
  \<^verbatim>\<open>config.json\<close> and \<^verbatim>\<open>data/syllables.json\<close> are data read at run time; the functions
  take them as parameters. The records follow the shape the code reads: a field that the
  code reads through \<^verbatim>\<open>||\<close> or \<^verbatim>\<open>?.\<close> is optional, every other field is required. A
  number of the configuration that takes part in scoring is a rational: the scores are
  sums of weights multiplied by diversity multipliers, and the model computes them
  exactly where JavaScript rounds to a double.

  The inventory is the list \<^verbatim>\<open>data.syllables\<close>; a string is a list of 8-bit characters.
\<close>

type_synonym inventory = "string list"

record encoding_config =
  baseInterval :: int
  maxSyllables :: int
  adaptiveCompression :: bool
  digitInterleaving :: bool

record thresholds =
  first :: rat
  second :: rat
  third :: rat

record separators_config =
  enabled :: bool
  maxSeparators :: nat
  thresholds :: thresholds

record apostrophe_weights =
  vowelHiatus :: rat
  elisionPattern :: rat
  shortLeftBonus :: rat
  apostrophe_interestBonus :: rat

record dot_weights =
  prefixPattern :: rat
  veryShortLeft :: rat
  dot_interestBonus :: rat

record hyphen_weights =
  criticalCluster :: rat
  hardCluster :: rat
  moderateCluster :: rat
  heavySimilarRhyme :: rat
  heavyPartialRhyme :: rat
  heavyAndHeavy :: rat
  identicalConsonants :: rat
  samePlaceArticulation :: rat
  hyphen_interestBonus :: rat

record space_weights =
  cleanConsonantBoundary :: rat
  heavyAndHeavySpace :: rat
  cleanSyllables :: rat
  naturalWordSplit :: rat

record tilde_weights =
  creativePattern :: rat
  technicalSeparator :: rat
  alternativeToDot :: rat
  alternativeToHyphen :: rat
  heavyRhyme :: rat
  cleanBoundary :: rat
  tilde_interestBonus :: rat

text \<open>A colon criterion \<^verbatim>\<open>{ weight, enabled }\<close>; the code reads it through \<^verbatim>\<open>?.\<close>.\<close>

record criterion =
  weight :: rat
  criterion_enabled :: bool

record colon_weights =
  sameConsonantPattern :: "criterion option"
  similarStructure :: "criterion option"
  rhythmicPair :: "criterion option"
  colon_interestBonus :: "criterion option"

record impossible_clusters =
  critical_pairs :: "string list"
  hard_pairs :: "string list"
  moderate_pairs :: "string list"

text \<open>
  \<^verbatim>\<open>placeOfArticulation\<close> is an object; only its array-valued entries are read, so the
  model keeps the arrays.
\<close>

record scoring_config =
  apostrophe_weights :: apostrophe_weights
  dot_weights :: dot_weights
  hyphen_weights :: hyphen_weights
  space_weights :: space_weights
  tilde_weights :: tilde_weights
  colon_weights :: "colon_weights option"
  heavySyllableThreshold :: nat
  impossibleClusters :: impossible_clusters
  placeOfArticulation :: "string list list"

record balancing_config =
  cfg_historySize :: "nat option"
  cfg_diversityStrength :: "rat option"
  cfg_targets :: "(string \<times> rat) list option"

text \<open>
  The whole configuration: \<^verbatim>\<open>config.encoding\<close>, \<^verbatim>\<open>config.separators\<close>,
  \<^verbatim>\<open>config.scoring\<close>, \<^verbatim>\<open>config.phonotactics.vowels\<close> and \<^verbatim>\<open>config.separatorBalancing\<close>.
\<close>

record config =
  config_encoding :: encoding_config
  config_separators :: separators_config
  config_scoring :: scoring_config
  config_vowels :: "string list"
  config_separatorBalancing :: "balancing_config option"

section \<open>Strings\<close>

text \<open>
  \<^verbatim>\<open>toLowerCase\<close> on the letters A to Z, and the character class \<^verbatim>\<open>[a-z]\<close>. Other
  characters are left as they are; none of them becomes a letter of \<^verbatim>\<open>[a-z]\<close>.
\<close>

definition lower_letters :: string where
  "lower_letters = ''abcdefghijklmnopqrstuvwxyz''"

definition upper_letters :: string where
  "upper_letters = ''ABCDEFGHIJKLMNOPQRSTUVWXYZ''"

definition toLowerCase_char :: "char \<Rightarrow> char" where
  "toLowerCase_char c =
     (case map_of (zip upper_letters lower_letters) c of Some l \<Rightarrow> l | None \<Rightarrow> c)"

definition toLowerCase :: "string \<Rightarrow> string" where
  "toLowerCase s = map toLowerCase_char s"

definition is_lower_letter :: "char \<Rightarrow> bool" where
  "is_lower_letter c = (c \<in> set lower_letters)"

section \<open>The decoder\<close>

text \<open>
  The functions of \<^verbatim>\<open>decoder.js\<close>. Each \<^verbatim>\<open>throw new Error(...)\<close> is a value of
  \<open>decode_error\<close>; the remainder quoted in the message of the third one is its argument.
\<close>

datatype decode_error =
    EmptyVersion
  | NoValidSyllables
  | UnrecognizedSyllable string
  | UnknownSyllable string

text \<open>\<^verbatim>\<open>version.toLowerCase().replace(/[^a-z]/g, '')\<close>\<close>

definition clean :: "string \<Rightarrow> string" where
  "clean version = filter is_lower_letter (toLowerCase version)"

text \<open>
  The inner \<^verbatim>\<open>for (let len = 4; len >= 2; len--)\<close> loop: the first length, in the order
  tried, whose prefix of \<open>remaining\<close> is in the inventory.
\<close>

fun match_syllable :: "inventory \<Rightarrow> string \<Rightarrow> nat list \<Rightarrow> nat option" where
  "match_syllable syllables remaining [] = None"
| "match_syllable syllables remaining (len # lens) =
     (if length remaining \<ge> len \<and> take len remaining \<in> set syllables then Some len
      else match_syllable syllables remaining lens)"

function parse_loop :: "inventory \<Rightarrow> string \<Rightarrow> string list \<Rightarrow> decode_error + string list" where
  "parse_loop db remaining syllables =
     (if length remaining > 0 then
        (case match_syllable db remaining [4, 3, 2] of
           None \<Rightarrow> Inl (UnrecognizedSyllable remaining)
         | Some len \<Rightarrow> parse_loop db (drop len remaining) (syllables @ [take len remaining]))
      else Inr syllables)"
  by pat_completeness auto
termination
  by (relation "measure (\<lambda>(db, remaining, syllables). length remaining)")
    (auto split: if_splits)

declare parse_loop.simps [simp del]

definition parseVersionToSyllables :: "inventory \<Rightarrow> string \<Rightarrow> decode_error + string list" where
  "parseVersionToSyllables db version =
     (if version = [] then Inl EmptyVersion
      else
        (let cleaned = clean version in
         if length cleaned = 0 then Inl NoValidSyllables
         else parse_loop db cleaned []))"

text \<open>
  \<^verbatim>\<open>createReverseLookup\<close>: a later syllable with the same lower-cased spelling overwrites
  an earlier one, as \<^verbatim>\<open>Map.set\<close> does.
\<close>

definition createReverseLookup :: "inventory \<Rightarrow> (string \<rightharpoonup> nat)" where
  "createReverseLookup db =
     fold (\<lambda>(syllable, index) m. m(toLowerCase syllable \<mapsto> index))
       (zip db [0..<length db]) Map.empty"

fun lookup_loop :: "(string \<rightharpoonup> nat) \<Rightarrow> string list \<Rightarrow> int list \<Rightarrow> decode_error + int list" where
  "lookup_loop lookup [] indices = Inr indices"
| "lookup_loop lookup (syllable # rest) indices =
     (case lookup syllable of
        None \<Rightarrow> Inl (UnknownSyllable syllable)
      | Some index \<Rightarrow> lookup_loop lookup rest (indices @ [int index]))"

definition decodeVersion :: "config \<Rightarrow> inventory \<Rightarrow> string \<Rightarrow> decode_error + int option" where
  "decodeVersion cfg db version =
     (case parseVersionToSyllables db version of
        Inl e \<Rightarrow> Inl e
      | Inr syllables \<Rightarrow>
          (case lookup_loop (createReverseLookup db) syllables [] of
             Inl e \<Rightarrow> Inl e
           | Inr indices \<Rightarrow>
               Inr (decodeSyllableIndices
                      (if digitInterleaving (config_encoding cfg) then deinterleaveDigits indices
                       else map Some indices))))"

subsection \<open>Greedy longest-match segmentation, as the description words it\<close>

text \<open>
  \<open>longest_match db r l\<close>: \<open>l\<close> is the longest of the lengths 4, 3, 2 for which the
  prefix of that length of \<open>r\<close> is an inventory syllable. \<open>no_match db r\<close>: no inventory
  syllable of any tried length is a prefix of \<open>r\<close>. \<open>greedy db s syls r\<close>: consuming the
  stream \<open>s\<close> from the front by longest matches emits \<open>syls\<close> and leaves \<open>r\<close>.
\<close>

definition is_prefix_syllable :: "inventory \<Rightarrow> string \<Rightarrow> nat \<Rightarrow> bool" where
  "is_prefix_syllable db r l = (l \<le> length r \<and> take l r \<in> set db)"

definition longest_match :: "inventory \<Rightarrow> string \<Rightarrow> nat \<Rightarrow> bool" where
  "longest_match db r l =
     (l \<in> {2, 3, 4} \<and> is_prefix_syllable db r l \<and>
      (\<forall>l' \<in> {2, 3, 4}. l < l' \<longrightarrow> \<not> is_prefix_syllable db r l'))"

definition no_match :: "inventory \<Rightarrow> string \<Rightarrow> bool" where
  "no_match db r = (\<forall>l \<in> {2, 3, 4}. \<not> is_prefix_syllable db r l)"

inductive greedy :: "inventory \<Rightarrow> string \<Rightarrow> string list \<Rightarrow> string \<Rightarrow> bool" for db where
  greedy_stop: "greedy db s [] s"
| greedy_step: "longest_match db s l \<Longrightarrow> greedy db (drop l s) syls r \<Longrightarrow>
                greedy db s (take l s # syls) r"

text \<open>
  The inventory conditions under which greedy longest-match segmentation is right: every
  syllable is made of 2 to 4 lowercase letters, and no longer syllable is a prefix of a
  shorter syllable followed by another syllable.
\<close>

definition syllable_shape :: "inventory \<Rightarrow> bool" where
  "syllable_shape db =
     (\<forall>s \<in> set db. 2 \<le> length s \<and> length s \<le> 4 \<and> (\<forall>c \<in> set s. is_lower_letter c))"

definition prefix_unambiguous :: "inventory \<Rightarrow> bool" where
  "prefix_unambiguous db =
     (\<forall>s \<in> set db. \<forall>t \<in> set db. \<forall>u \<in> set db.
        length s < length u \<longrightarrow> take (length u) (s @ t) \<noteq> u)"

section \<open>The separator balancer\<close>

text \<open>
  The class of \<^verbatim>\<open>separator-balancer.js\<close>. An object of the class is a record of its four
  fields; a method that changes \<^verbatim>\<open>this\<close> returns the changed record. The objects
  \<^verbatim>\<open>targets\<close>, \<^verbatim>\<open>multipliers\<close> and the scores are association lists in the order of their
  keys, which is the order \<^verbatim>\<open>for ... in\<close> and \<^verbatim>\<open>Object.entries\<close> walk them in.
\<close>

record SeparatorBalancer =
  historySize :: nat
  history :: "string list"
  targets :: "(string \<times> rat) list"
  diversityStrength :: rat

definition default_targets :: "(string \<times> rat) list" where
  "default_targets =
     [(''space'', 50), (''dot'', 25), (''colon'', 10), (''tilde'', 8), (''hyphen'', 5),
      (''apostrophe'', 2)]"

text \<open>\<^verbatim>\<open>x || d\<close> on an optional number: \<open>d\<close> when \<open>x\<close> is absent or zero.\<close>

definition or_default :: "'a::zero option \<Rightarrow> 'a \<Rightarrow> 'a" where
  "or_default x d = (case x of None \<Rightarrow> d | Some v \<Rightarrow> if v = 0 then d else v)"

text \<open>A default of a destructuring pattern: \<open>d\<close> when \<open>x\<close> is absent.\<close>

definition or_else :: "'a option \<Rightarrow> 'a \<Rightarrow> 'a" where
  "or_else x d = (case x of None \<Rightarrow> d | Some v \<Rightarrow> v)"

definition new_SeparatorBalancer :: "balancing_config \<Rightarrow> SeparatorBalancer" where
  "new_SeparatorBalancer c =
     \<lparr> historySize = or_default (cfg_historySize c) 100,
       history = [],
       targets = (case cfg_targets c of None \<Rightarrow> default_targets | Some t \<Rightarrow> t),
       diversityStrength = or_default (cfg_diversityStrength c) (3 / 10) \<rparr>"

definition recordUsage :: "SeparatorBalancer \<Rightarrow> string \<Rightarrow> SeparatorBalancer" where
  "recordUsage b separator =
     (let h = history b @ [separator]
      in b\<lparr>history := (if length h > historySize b then tl h else h)\<rparr>)"

text \<open>
  \<^verbatim>\<open>getCurrentDistribution\<close>: the counts are collected in a first pass over the history,
  the percentages in a second pass over the counts.
\<close>

definition count_usage :: "string list \<Rightarrow> (string \<rightharpoonup> nat)" where
  "count_usage h =
     fold (\<lambda>sep counts. counts(sep \<mapsto> (case counts sep of None \<Rightarrow> 0 | Some c \<Rightarrow> c) + 1))
       h Map.empty"

definition getCurrentDistribution :: "SeparatorBalancer \<Rightarrow> (string \<rightharpoonup> rat)" where
  "getCurrentDistribution b =
     (if length (history b) = 0 then Map.empty
      else (\<lambda>sep. case count_usage (history b) sep of
                     None \<Rightarrow> None
                   | Some c \<Rightarrow> Some (of_nat c / of_nat (length (history b)) * 100)))"

definition getDiversityMultipliers :: "SeparatorBalancer \<Rightarrow> (string \<times> rat) list" where
  "getDiversityMultipliers b =
     (let current = getCurrentDistribution b
      in map (\<lambda>(sep, target).
                let actual = or_default (current sep) 0;
                    diff = actual - target;
                    adjustment = 1 - (diff / 100) * diversityStrength b
                in (sep, max (1 / 2) (min 2 adjustment)))
           (targets b))"

definition adjustScores :: "SeparatorBalancer \<Rightarrow> (string \<times> rat) list \<Rightarrow> (string \<times> rat) list" where
  "adjustScores b scores =
     (let multipliers = getDiversityMultipliers b
      in map (\<lambda>(sep, score). (sep, score * or_default (map_of multipliers sep) 1)) scores)"

text \<open>
  \<^verbatim>\<open>.filter(([_, score]) => score >= threshold).sort((a, b) => b[1] - a[1])\<close>: the sort
  is stable, so among equal scores the earlier key stays first.
\<close>

definition candidates_of :: "(string \<times> rat) list \<Rightarrow> rat \<Rightarrow> (string \<times> rat) list" where
  "candidates_of scores threshold =
     sort_key (\<lambda>(sep, score). - score) (filter (\<lambda>(sep, score). score \<ge> threshold) scores)"

definition balancer_chooseSeparator ::
  "SeparatorBalancer \<Rightarrow> (string \<times> rat) list \<Rightarrow> rat \<Rightarrow> string option \<times> SeparatorBalancer" where
  "balancer_chooseSeparator b rawScores threshold =
     (let adjustedScores = adjustScores b rawScores;
          candidates = candidates_of adjustedScores threshold
      in case candidates of
           [] \<Rightarrow> (None, b)
         | (winner, score) # rest \<Rightarrow> (Some winner, recordUsage b winner))"

definition reset :: "SeparatorBalancer \<Rightarrow> SeparatorBalancer" where
  "reset b = b\<lparr>history := []\<rparr>"

subsection \<open>The multiplier formula, as the description words it\<close>




section \<open>The separator engine\<close>

text \<open>
  The functions of \<^verbatim>\<open>separators.js\<close>. The module keeps one balancer in the variable
  \<^verbatim>\<open>globalBalancer\<close>, created on first use; the model passes it in and returns it
  (\<open>None\<close>: not created yet). A character read from a string, \<^verbatim>\<open>s[0]\<close> or
  \<^verbatim>\<open>s[s.length - 1]\<close>, is \<^verbatim>\<open>undefined\<close> when the string is empty: a \<^typ>\<open>char option\<close>.
  The one place where such a value makes the code throw is \<^verbatim>\<open>(c1 + c2).toLowerCase()\<close> in
  \<^verbatim>\<open>checkClusterDifficulty\<close>, when both are \<^verbatim>\<open>undefined\<close> and their sum is \<^verbatim>\<open>NaN\<close>; a
  list of syllables that is read at index 0 or at its last index throws when it is empty.
\<close>

datatype failure = TypeError | UndefinedSyllable int

type_synonym global_state = "SeparatorBalancer option"

text \<open>\<^verbatim>\<open>Array.prototype.join\<close> and \<^verbatim>\<open>Array.prototype.slice\<close> on a list of strings.\<close>

fun join :: "string \<Rightarrow> string list \<Rightarrow> string" where
  "join sep [] = []"
| "join sep [x] = x"
| "join sep (x # y # ys) = x @ sep @ join sep (y # ys)"

definition slice :: "'a list \<Rightarrow> nat \<Rightarrow> nat \<Rightarrow> 'a list" where
  "slice xs a b = take (b - a) (drop a xs)"

definition getBalancer :: "config \<Rightarrow> global_state \<Rightarrow> SeparatorBalancer" where
  "getBalancer cfg g =
     (case g of
        Some b \<Rightarrow> b
      | None \<Rightarrow>
          (let balancingConfig =
                 (case config_separatorBalancing cfg of
                    None \<Rightarrow> \<lparr>cfg_historySize = None, cfg_diversityStrength = None,
                              cfg_targets = None\<rparr>
                  | Some c \<Rightarrow> c)
           in new_SeparatorBalancer
                \<lparr>cfg_historySize = Some (or_default (cfg_historySize balancingConfig) 100),
                 cfg_diversityStrength =
                   Some (or_default (cfg_diversityStrength balancingConfig) (8 / 10)),
                 cfg_targets =
                   Some (case cfg_targets balancingConfig of
                           None \<Rightarrow> default_targets
                         | Some t \<Rightarrow> t)\<rparr>))"

definition last_char :: "string \<Rightarrow> char option" where
  "last_char s = (if s = [] then None else Some (last s))"

definition first_char :: "string \<Rightarrow> char option" where
  "first_char s = (if s = [] then None else Some (hd s))"

definition isVowel :: "config \<Rightarrow> char option \<Rightarrow> bool" where
  "isVowel cfg c = (case c of None \<Rightarrow> False | Some ch \<Rightarrow> [toLowerCase_char ch] \<in> set (config_vowels cfg))"

definition isHeavySyllable :: "config \<Rightarrow> string \<Rightarrow> bool" where
  "isHeavySyllable cfg syllable = (length syllable \<ge> heavySyllableThreshold (config_scoring cfg))"

definition getEnding :: "string \<Rightarrow> string" where
  "getEnding syllable = drop (length syllable - 2) syllable"

definition hasExactRhyme :: "string \<Rightarrow> string \<Rightarrow> bool" where
  "hasExactRhyme syl1 syl2 = (getEnding syl1 = getEnding syl2)"

definition hasPartialRhyme :: "config \<Rightarrow> string \<Rightarrow> string \<Rightarrow> bool" where
  "hasPartialRhyme cfg syl1 syl2 =
     (let last1 = last_char syl1; last2 = last_char syl2
      in \<not> isVowel cfg last1 \<and> last1 = last2)"

datatype difficulty = Critical | Hard | Moderate

text \<open>String concatenation writes \<^verbatim>\<open>undefined\<close> out.\<close>

definition js_string :: "char option \<Rightarrow> string" where
  "js_string c = (case c of None \<Rightarrow> ''undefined'' | Some ch \<Rightarrow> [ch])"

definition checkClusterDifficulty ::
  "config \<Rightarrow> char option \<Rightarrow> char option \<Rightarrow> failure + difficulty option" where
  "checkClusterDifficulty cfg c1 c2 =
     (if c1 = None \<and> c2 = None then Inl TypeError
      else
        (let pair = toLowerCase (js_string c1 @ js_string c2);
             clusters = impossibleClusters (config_scoring cfg)
         in Inr (if pair \<in> set (critical_pairs clusters) then Some Critical
                 else if pair \<in> set (hard_pairs clusters) then Some Hard
                 else if pair \<in> set (moderate_pairs clusters) then Some Moderate
                 else None)))"

definition place_includes :: "string list \<Rightarrow> char option \<Rightarrow> bool" where
  "place_includes place c = (case c of None \<Rightarrow> False | Some ch \<Rightarrow> [ch] \<in> set place)"

definition samePlaceOfArticulation :: "config \<Rightarrow> char option \<Rightarrow> char option \<Rightarrow> bool" where
  "samePlaceOfArticulation cfg c1 c2 =
     (\<exists>place \<in> set (placeOfArticulation (config_scoring cfg)).
        place_includes place c1 \<and> place_includes place c2)"

subsection \<open>getRuleBPosition\<close>

text \<open>A weight that the match object does not have is 0: the code tests it for truth.\<close>

record rule_b =
  rb_position :: int
  rb_type :: "string option"
  rb_hyphen :: rat
  rb_dot :: rat
  rb_space :: rat
  rb_priority :: nat

definition no_rule_b :: rule_b where
  "no_rule_b = \<lparr>rb_position = - 1, rb_type = None, rb_hyphen = 0, rb_dot = 0, rb_space = 0,
                 rb_priority = 0\<rparr>"

text \<open>\<^verbatim>\<open>if (match.priority > bestMatch.priority) bestMatch = match\<close>\<close>

definition better :: "rule_b \<Rightarrow> rule_b \<Rightarrow> rule_b" where
  "better match bestMatch = (if rb_priority match > rb_priority bestMatch then match else bestMatch)"

definition occurrences :: "string list \<Rightarrow> string \<Rightarrow> nat list" where
  "occurrences syllables syl = filter (\<lambda>j. syllables ! j = syl) [0..<length syllables]"

fun gap_loop :: "nat list \<Rightarrow> rule_b \<Rightarrow> rule_b" where
  "gap_loop (pos1 # pos2 # rest) bestMatch =
     gap_loop (pos2 # rest)
       (if pos2 - pos1 > 1 then
          better \<lparr>rb_position = int pos2, rb_type = Some ''non-consecutive-identical'',
                  rb_hyphen = 120, rb_dot = 0, rb_space = 25, rb_priority = 110\<rparr> bestMatch
        else bestMatch)"
| "gap_loop positions bestMatch = bestMatch"

definition non_consecutive_pass :: "string list \<Rightarrow> rule_b \<Rightarrow> rule_b" where
  "non_consecutive_pass syllables bestMatch =
     fold (\<lambda>i best. gap_loop (occurrences syllables (syllables ! i)) best)
       [0..<length syllables] bestMatch"

definition identical_pass :: "string list \<Rightarrow> rule_b \<Rightarrow> rule_b" where
  "identical_pass syllables bestMatch =
     fold (\<lambda>start best.
             let firstSyl = syllables ! start;
                 identicalCount =
                   1 + length (takeWhile (\<lambda>s. s = firstSyl) (drop (start + 1) syllables));
                 best4 = (if identicalCount \<ge> 4 then
                            better \<lparr>rb_position = int start + 2, rb_type = Some ''4x-identical'',
                                    rb_hyphen = 100, rb_dot = 0, rb_space = 20,
                                    rb_priority = 100\<rparr> best
                          else best);
                 best3 = (if identicalCount \<ge> 3 then
                            better \<lparr>rb_position = int start + 1, rb_type = Some ''3x-identical'',
                                    rb_hyphen = 100, rb_dot = 0, rb_space = 20,
                                    rb_priority = 90\<rparr> best4
                          else best4)
             in (if identicalCount \<ge> 2 then
                   better \<lparr>rb_position = int start + 1, rb_type = Some ''2x-identical'',
                           rb_hyphen = 100, rb_dot = 0, rb_space = 20,
                           rb_priority = 80\<rparr> best3
                 else best3))
       [0..<length syllables - 1] bestMatch"

definition similar_pass :: "string list \<Rightarrow> rule_b \<Rightarrow> rule_b" where
  "similar_pass syllables bestMatch =
     fold (\<lambda>start best.
             let firstSyl = syllables ! start;
                 firstChar = first_char firstSyl;
                 sylLen = length firstSyl;
                 matchCount =
                   1 + length (takeWhile (\<lambda>s. length s = sylLen \<and> first_char s = firstChar)
                                 (drop (start + 1) syllables));
                 best4 = (if matchCount \<ge> 4 then
                            better \<lparr>rb_position = int start + 2, rb_type = Some ''4x'',
                                    rb_hyphen = 40, rb_dot = 0, rb_space = 20,
                                    rb_priority = 50\<rparr> best
                          else best)
             in (if matchCount \<ge> 3 then
                   better \<lparr>rb_position = int start + 1, rb_type = Some ''3x'',
                           rb_hyphen = 40, rb_dot = 40, rb_space = 20,
                           rb_priority = 40\<rparr> best4
                 else best4))
       [0..<length syllables - 2] bestMatch"

definition getRuleBPosition :: "string list \<Rightarrow> rule_b" where
  "getRuleBPosition syllables =
     (if length syllables < 2 then no_rule_b
      else similar_pass syllables
             (identical_pass syllables (non_consecutive_pass syllables no_rule_b)))"

subsection \<open>analyzeBoundary\<close>

record scores =
  apostrophe :: rat
  dot :: rat
  hyphen :: rat
  space :: rat
  tilde :: rat
  colon :: rat

text \<open>\<^verbatim>\<open>Object.entries(scores)\<close>, in the order in which the object literal lists its keys.\<close>

definition entries :: "scores \<Rightarrow> (string \<times> rat) list" where
  "entries s =
     [(''apostrophe'', apostrophe s), (''dot'', dot s), (''hyphen'', hyphen s),
      (''space'', space s), (''tilde'', tilde s), (''colon'', colon s)]"

text \<open>\<^verbatim>\<open>if (c) x += w\<close>, and the interest bonus \<^verbatim>\<open>if (x > 0) x += w\<close>.\<close>

definition add_if :: "bool \<Rightarrow> rat \<Rightarrow> rat \<Rightarrow> rat" where
  "add_if c w x = (if c then x + w else x)"

definition add_if_positive :: "rat \<Rightarrow> rat \<Rightarrow> rat" where
  "add_if_positive w x = (if x > 0 then x + w else x)"

text \<open>\<^verbatim>\<open>if (weights.colon?.k?.enabled) scores.colon += weights.colon.k.weight\<close>\<close>

definition add_criterion :: "bool \<Rightarrow> criterion option \<Rightarrow> rat \<Rightarrow> rat" where
  "add_criterion c k x =
     (case k of
        None \<Rightarrow> x
      | Some crit \<Rightarrow> if c \<and> criterion_enabled crit then x + weight crit else x)"

definition colon_criterion :: "config \<Rightarrow> (colon_weights \<Rightarrow> criterion option) \<Rightarrow> criterion option" where
  "colon_criterion cfg field =
     (case colon_weights (config_scoring cfg) of None \<Rightarrow> None | Some cw \<Rightarrow> field cw)"

definition getConsonants :: "config \<Rightarrow> string \<Rightarrow> string" where
  "getConsonants cfg syl = filter (\<lambda>c. \<not> isVowel cfg (Some c)) syl"

definition analyzeBoundary ::
  "config \<Rightarrow> string list \<Rightarrow> string list \<Rightarrow> string list option \<Rightarrow> failure + scores" where
  "analyzeBoundary cfg leftSyllables rightSyllables allSyllables =
     (if leftSyllables = [] \<or> rightSyllables = [] then Inl TypeError
      else
        (let weights = config_scoring cfg;
             lastSyl = last leftSyllables;
             firstSyl = hd rightSyllables;
             lastChar = last_char lastSyl;
             firstChar = first_char firstSyl;
             leftWord = join [] leftSyllables;
             rightWord = join [] rightSyllables;
             ruleBInfo = (case allSyllables of None \<Rightarrow> no_rule_b | Some a \<Rightarrow> getRuleBPosition a);
             currentPosition = length leftSyllables;
             atRuleB = (rb_position ruleBInfo = int currentPosition \<and> rb_type ruleBInfo \<noteq> None);
             prefixLike = (length leftSyllables = 1 \<and> length rightSyllables \<ge> 2 \<and>
                           length leftWord \<ge> 2 \<and> length leftWord \<le> 5);
             isHeavy1 = isHeavySyllable cfg lastSyl;
             isHeavy2 = isHeavySyllable cfg firstSyl;
             exactRhyme = hasExactRhyme lastSyl firstSyl;
             partialRhyme = hasPartialRhyme cfg lastSyl firstSyl;
             consonants = (\<not> isVowel cfg lastChar \<and> \<not> isVowel cfg firstChar);
             lastConsonants = getConsonants cfg lastSyl;
             firstConsonants = getConsonants cfg firstSyl
         in case checkClusterDifficulty cfg lastChar firstChar of
              Inl e \<Rightarrow> Inl e
            | Inr clusterDiff \<Rightarrow>
                Inr \<lparr>
                  apostrophe =
                    add_if_positive (apostrophe_interestBonus (apostrophe_weights weights))
                     (add_if (length leftWord \<le> 3 \<and> isVowel cfg firstChar)
                        (shortLeftBonus (apostrophe_weights weights))
                     (add_if (\<not> isVowel cfg lastChar \<and> isVowel cfg firstChar)
                        (elisionPattern (apostrophe_weights weights))
                     (add_if (isVowel cfg lastChar \<and> isVowel cfg firstChar)
                        (vowelHiatus (apostrophe_weights weights)) 0))),
                  dot =
                    add_if_positive (dot_interestBonus (dot_weights weights))
                     (add_if (length leftSyllables = 1 \<and> length leftWord = 2)
                        (veryShortLeft (dot_weights weights))
                     (add_if prefixLike (prefixPattern (dot_weights weights))
                     (add_if (atRuleB \<and> rb_dot ruleBInfo \<noteq> 0 \<and> currentPosition = 1)
                        (rb_dot ruleBInfo) 0))),
                  hyphen =
                    add_if_positive (hyphen_interestBonus (hyphen_weights weights))
                     (add_if (consonants \<and> samePlaceOfArticulation cfg lastChar firstChar)
                        (samePlaceArticulation (hyphen_weights weights))
                     (add_if (lastChar = firstChar \<and> \<not> isVowel cfg lastChar)
                        (identicalConsonants (hyphen_weights weights))
                     (add_if (isHeavy1 \<and> isHeavy2) (heavyAndHeavy (hyphen_weights weights))
                     (add_if (isHeavy1 \<and> isHeavy2 \<and> \<not> exactRhyme \<and> partialRhyme)
                        (heavyPartialRhyme (hyphen_weights weights))
                     (add_if (isHeavy1 \<and> isHeavy2 \<and> exactRhyme)
                        (heavySimilarRhyme (hyphen_weights weights))
                     (add_if (clusterDiff = Some Moderate) (moderateCluster (hyphen_weights weights))
                     (add_if (clusterDiff = Some Hard) (hardCluster (hyphen_weights weights))
                     (add_if (clusterDiff = Some Critical) (criticalCluster (hyphen_weights weights))
                     (add_if (atRuleB \<and> rb_hyphen ruleBInfo \<noteq> 0) (rb_hyphen ruleBInfo) 0))))))))),
                  space =
                    add_if (length leftWord \<ge> 4 \<and> length rightWord \<ge> 4)
                       (naturalWordSplit (space_weights weights))
                     (add_if consonants (cleanSyllables (space_weights weights))
                     (add_if (isHeavy1 \<and> isHeavy2 \<and> \<not> exactRhyme)
                        (heavyAndHeavySpace (space_weights weights))
                     (add_if (consonants \<and> clusterDiff = None)
                        (cleanConsonantBoundary (space_weights weights))
                     (add_if (atRuleB \<and> rb_space ruleBInfo \<noteq> 0) (rb_space ruleBInfo) 0)))),
                  tilde =
                    add_if True (tilde_interestBonus (tilde_weights weights))
                     (add_if (consonants \<and> clusterDiff = None) (cleanBoundary (tilde_weights weights))
                     (add_if (isHeavy1 \<and> isHeavy2 \<and> (exactRhyme \<or> partialRhyme))
                        (heavyRhyme (tilde_weights weights))
                     (add_if (clusterDiff = Some Moderate \<or> clusterDiff = Some Hard)
                        (alternativeToHyphen (tilde_weights weights))
                     (add_if prefixLike (alternativeToDot (tilde_weights weights))
                     (add_if True (technicalSeparator (tilde_weights weights))
                     (add_if True (creativePattern (tilde_weights weights)) 0)))))),
                  colon =
                    add_criterion True (colon_criterion cfg colon_interestBonus)
                     (add_criterion (length lastSyl \<ge> 2 \<and> length firstSyl \<ge> 2)
                        (colon_criterion cfg rhythmicPair)
                     (add_criterion (length lastSyl = length firstSyl \<and>
                                     length lastConsonants = length firstConsonants)
                        (colon_criterion cfg similarStructure)
                     (add_criterion (lastConsonants = firstConsonants \<and> length lastConsonants \<ge> 2)
                        (colon_criterion cfg sameConsonantPattern) 0)))
                \<rparr>))"

subsection \<open>chooseSeparator\<close>

definition separatorMap :: "(string \<times> string) list" where
  "separatorMap =
     [(''apostrophe'', [CHR 0x27]), (''dot'', ''. ''), (''hyphen'', ''-''), (''space'', '' ''),
      (''tilde'', ''~''), (''colon'', '':'')]"

text \<open>
  The result is the separator string, or the empty string when there is no winner. A
  winner that is not a key of \<^verbatim>\<open>separatorMap\<close> would give \<^verbatim>\<open>undefined\<close>, which the caller
  treats as it treats the empty string; the winners are keys of the scores.
\<close>

definition chooseSeparator ::
  "config \<Rightarrow> scores \<Rightarrow> rat \<Rightarrow> bool \<Rightarrow> global_state \<Rightarrow> string \<times> global_state" where
  "chooseSeparator cfg scores threshold useBalancing g =
     (let (winner, g') =
            (if useBalancing then
               (let balancer = getBalancer cfg g;
                    (w, b) = balancer_chooseSeparator balancer (entries scores) threshold
                in (w, Some b))
             else
               (case candidates_of (entries scores) threshold of
                  [] \<Rightarrow> (None, g)
                | (w, score) # rest \<Rightarrow> (Some w, g)))
      in case winner of
           None \<Rightarrow> ([], g')
         | Some w \<Rightarrow> (case map_of separatorMap w of None \<Rightarrow> ([], g') | Some sep \<Rightarrow> (sep, g')))"

subsection \<open>addSmartSeparators\<close>

record placed =
  position :: nat
  sep_string :: string
  sep_score :: rat

record smart_options =
  opt_maxSeparators :: "nat option"
  opt_thresholds :: "thresholds option"

definition maxScore_of :: "scores \<Rightarrow> rat" where
  "maxScore_of s =
     max (apostrophe s) (max (dot s) (max (hyphen s) (max (space s) (max (tilde s) (colon s)))))"

definition nearby :: "placed list \<Rightarrow> nat \<Rightarrow> bool" where
  "nearby separators i = (\<exists>s \<in> set separators. \<bar>int (position s) - int i\<bar> \<le> 1)"

text \<open>
  The inner loop \<^verbatim>\<open>for (let i = 1; i < syllables.length; i++)\<close> of one round, over the
  positions still to try. The best candidate so far is \<open>(bestScore, bestPosition,
  bestSeparator)\<close>. A throw leaves the loop with the balancer as it is at that moment.
\<close>

fun scan ::
  "config \<Rightarrow> string list \<Rightarrow> placed list \<Rightarrow> rat \<Rightarrow> nat list \<Rightarrow> rat \<times> int \<times> string \<Rightarrow>
   global_state \<Rightarrow> (failure + rat \<times> int \<times> string) \<times> global_state" where
  "scan cfg syllables separators threshold [] best g = (Inr best, g)"
| "scan cfg syllables separators threshold (i # rest) (bestScore, bestPosition, bestSeparator) g =
     (if nearby separators i then
        scan cfg syllables separators threshold rest (bestScore, bestPosition, bestSeparator) g
      else
        (case analyzeBoundary cfg (slice syllables 0 i) (drop i syllables) (Some syllables) of
           Inl e \<Rightarrow> (Inl e, g)
         | Inr scores \<Rightarrow>
             (let (separator, g') = chooseSeparator cfg scores threshold True g;
                  maxScore = maxScore_of scores
              in if maxScore > bestScore \<and> separator \<noteq> [] then
                   scan cfg syllables separators threshold rest (maxScore, int i, separator) g'
                 else
                   scan cfg syllables separators threshold rest
                     (bestScore, bestPosition, bestSeparator) g')))"

definition threshold_of :: "thresholds \<Rightarrow> nat \<Rightarrow> rat" where
  "threshold_of th r = (if r = 0 then first th else if r = 1 then second th else third th)"

text \<open>
  The outer loop \<^verbatim>\<open>for (let round = 0; round < maxSeparators; round++)\<close>; \<open>left\<close>
  counts the rounds that remain and \<open>r\<close> is the number of the round.
\<close>

fun rounds ::
  "config \<Rightarrow> string list \<Rightarrow> thresholds \<Rightarrow> nat \<Rightarrow> nat \<Rightarrow> placed list \<Rightarrow> global_state \<Rightarrow>
   (failure + placed list) \<times> global_state" where
  "rounds cfg syllables th 0 r separators g = (Inr separators, g)"
| "rounds cfg syllables th (Suc left) r separators g =
     (let threshold = threshold_of th r
      in case scan cfg syllables separators threshold [1..<length syllables] (0, - 1, []) g of
           (Inl e, g') \<Rightarrow> (Inl e, g')
         | (Inr (bestScore, bestPosition, bestSeparator), g') \<Rightarrow>
             if bestPosition = - 1 \<or> bestScore < threshold then (Inr separators, g')
             else rounds cfg syllables th left (r + 1)
                    (separators @
                       [\<lparr>position = nat bestPosition, sep_string = bestSeparator,
                         sep_score = bestScore\<rparr>])
                    g')"

fun build_loop :: "string list \<Rightarrow> placed list \<Rightarrow> nat \<Rightarrow> string \<Rightarrow> string" where
  "build_loop syllables [] lastPos result = result @ join [] (drop lastPos syllables)"
| "build_loop syllables (sep # rest) lastPos result =
     build_loop syllables rest (position sep)
       (result @ join [] (slice syllables lastPos (position sep)) @ sep_string sep)"

definition addSmartSeparators ::
  "config \<Rightarrow> smart_options \<Rightarrow> string list \<Rightarrow> global_state \<Rightarrow> (failure + string) \<times> global_state" where
  "addSmartSeparators cfg options syllables g =
     (let sepConfig = config_separators cfg in
      if \<not> enabled sepConfig then (Inr (join [] syllables), g)
      else
        (let maxSeparators = or_else (opt_maxSeparators options) (maxSeparators sepConfig);
             th = or_else (opt_thresholds options) (thresholds sepConfig)
         in if length syllables < 2 then (Inr (join [] syllables), g)
            else
              (case rounds cfg syllables th maxSeparators 0 [] g of
                 (Inl e, g') \<Rightarrow> (Inl e, g')
               | (Inr placedSeparators, g') \<Rightarrow>
                   if length placedSeparators = 0 then (Inr (join [] syllables), g')
                   else (Inr (build_loop syllables (sort_key position placedSeparators) 0 []),
                         g'))))"

subsection \<open>What a round evaluates, and the decorated string\<close>

text \<open>
  \<open>trace\<close> lists what the inner loop of a round evaluates, in order: for every position
  that is not within 1 of a placed separator, the position, the highest raw score of its
  boundary and the separator that \<^verbatim>\<open>chooseSeparator\<close> returned for it (with the balancer as
  it is at that moment). \<open>pick\<close> is the update of the best candidate, and
  \<open>decorate\<close> is the string in which every syllable is preceded by the separator placed
  at its position, if there is one.
\<close>

fun trace ::
  "config \<Rightarrow> string list \<Rightarrow> placed list \<Rightarrow> rat \<Rightarrow> nat list \<Rightarrow> global_state \<Rightarrow>
   (nat \<times> rat \<times> string) list" where
  "trace cfg syllables separators threshold [] g = []"
| "trace cfg syllables separators threshold (i # rest) g =
     (if nearby separators i then trace cfg syllables separators threshold rest g
      else
        (case analyzeBoundary cfg (slice syllables 0 i) (drop i syllables) (Some syllables) of
           Inl e \<Rightarrow> []
         | Inr scores \<Rightarrow>
             (let (separator, g') = chooseSeparator cfg scores threshold True g
              in (i, maxScore_of scores, separator)
                 # trace cfg syllables separators threshold rest g')))"

definition pick :: "nat \<times> rat \<times> string \<Rightarrow> rat \<times> int \<times> string \<Rightarrow> rat \<times> int \<times> string" where
  "pick c best =
     (case (c, best) of
        ((i, maxScore, separator), (bestScore, bestPosition, bestSeparator)) \<Rightarrow>
          if maxScore > bestScore \<and> separator \<noteq> [] then (maxScore, int i, separator)
          else (bestScore, bestPosition, bestSeparator))"

definition separator_at :: "placed list \<Rightarrow> nat \<Rightarrow> string" where
  "separator_at separators i =
     (case find (\<lambda>p. position p = i) separators of None \<Rightarrow> [] | Some p \<Rightarrow> sep_string p)"

definition decorate :: "string list \<Rightarrow> placed list \<Rightarrow> string" where
  "decorate syllables separators =
     concat (map (\<lambda>i. separator_at separators i @ syllables ! i) [0..<length syllables])"

definition separator_strings :: "string set" where
  "separator_strings = snd ` set separatorMap"

text \<open>
  \<open>round_choice cfg syllables separators threshold g p\<close>: in a round that starts with the
  placed \<open>separators\<close> and the balancer \<open>g\<close>, the candidate \<open>p\<close> is among those evaluated,
  \<^verbatim>\<open>chooseSeparator\<close> returned its separator, its score is the highest raw score of its
  boundary, no evaluated boundary for which a separator was returned has a higher one, and
  the score clears the threshold.
\<close>

definition round_choice ::
  "config \<Rightarrow> string list \<Rightarrow> placed list \<Rightarrow> rat \<Rightarrow> global_state \<Rightarrow> placed \<Rightarrow> bool" where
  "round_choice cfg syllables separators threshold g p =
     (let tr = trace cfg syllables separators threshold [1..<length syllables] g
      in (position p, sep_score p, sep_string p) \<in> set tr \<and>
         sep_string p \<noteq> [] \<and>
         (\<forall>c \<in> set tr. snd (snd c) \<noteq> [] \<longrightarrow> fst (snd c) \<le> sep_score p) \<and>
         threshold \<le> sep_score p)"

text \<open>
  \<open>placed_ok cfg syllables th separators\<close>: the \<open>k\<close>-th placed separator is the choice of
  round \<open>k\<close>, made with the separators placed before it and the threshold of that round.
\<close>

definition placed_ok :: "config \<Rightarrow> string list \<Rightarrow> thresholds \<Rightarrow> placed list \<Rightarrow> bool" where
  "placed_ok cfg syllables th separators =
     (\<forall>k < length separators.
        \<exists>g. round_choice cfg syllables (take k separators) (threshold_of th k) g
              (separators ! k))"

section \<open>The generator\<close>






section \<open>An example configuration\<close>

text \<open>
  The weights, thresholds, cluster lists and balancing targets that the documentation of
  the repository gives for \<^verbatim>\<open>config.json\<close>. The file itself is not at hand; for what the
  documentation leaves open, the example takes 0 for \<^verbatim>\<open>technicalSeparator\<close>, the vowels
  a, e, i, o, u, and three places of articulation with their usual consonants.
\<close>

definition example_config :: config where
  "example_config =
     \<lparr>config_encoding =
        \<lparr>baseInterval = 900, maxSyllables = 6, adaptiveCompression = True,
         digitInterleaving = True\<rparr>,
      config_separators =
        \<lparr>enabled = True, maxSeparators = 2,
         thresholds = \<lparr>first = 100, second = 70, third = 50\<rparr>\<rparr>,
      config_scoring =
        \<lparr>apostrophe_weights =
           \<lparr>vowelHiatus = 200, elisionPattern = 120, shortLeftBonus = 30,
            apostrophe_interestBonus = 50\<rparr>,
         dot_weights = \<lparr>prefixPattern = 200, veryShortLeft = 50, dot_interestBonus = 30\<rparr>,
         hyphen_weights =
           \<lparr>criticalCluster = 160, hardCluster = 140, moderateCluster = 100,
            heavySimilarRhyme = 140, heavyPartialRhyme = 140, heavyAndHeavy = 60,
            identicalConsonants = 120, samePlaceArticulation = 40, hyphen_interestBonus = 5\<rparr>,
         space_weights =
           \<lparr>cleanConsonantBoundary = 300, heavyAndHeavySpace = 280, cleanSyllables = 120,
            naturalWordSplit = 80\<rparr>,
         tilde_weights =
           \<lparr>creativePattern = 30, technicalSeparator = 0, alternativeToDot = 60,
            alternativeToHyphen = 60, heavyRhyme = 80, cleanBoundary = 40,
            tilde_interestBonus = 15\<rparr>,
         colon_weights =
           Some \<lparr>sameConsonantPattern = Some \<lparr>weight = 300, criterion_enabled = True\<rparr>,
                 similarStructure = Some \<lparr>weight = 30, criterion_enabled = False\<rparr>,
                 rhythmicPair = Some \<lparr>weight = 20, criterion_enabled = False\<rparr>,
                 colon_interestBonus = Some \<lparr>weight = 0, criterion_enabled = True\<rparr>\<rparr>,
         heavySyllableThreshold = 4,
         impossibleClusters =
           \<lparr>critical_pairs =
              [''tl'', ''dl'', ''pn'', ''bn'', ''gn'', ''sr'', ''zr'', ''pb'', ''td'', ''kg''],
            hard_pairs =
              [''kd'', ''kt'', ''bd'', ''bk'', ''gd'', ''gt'', ''pd'', ''pt'', ''nm'', ''mn''],
            moderate_pairs = [''fs'', ''sz'', ''fp'', ''vb'', ''ft'', ''vd'']\<rparr>,
         placeOfArticulation =
           [[''p'', ''b'', ''m''], [''t'', ''d'', ''n'', ''s'', ''z'', ''l''], [''k'', ''g'']]\<rparr>,
      config_vowels = [''a'', ''e'', ''i'', ''o'', ''u''],
      config_separatorBalancing =
        Some \<lparr>cfg_historySize = Some 100, cfg_diversityStrength = Some (8 / 10),
              cfg_targets = Some default_targets\<rparr>\<rparr>"

text \<open>
  Example inputs: no options for the separator engine; the balancer as it is after the
  hyphen of \<^verbatim>\<open>brak-drak\<close> has been recorded, and after a dot and a space more; the
  scores of the two boundaries of \<^verbatim>\<open>bu brak drak\<close>; and a generator environment with a
  two-syllable inventory in which the digits \<open>[1, 0]\<close> of 128, interleaved to \<open>[0, 1]\<close>,
  spell \<^verbatim>\<open>brak drak\<close>.
\<close>

definition no_options :: smart_options where
  "no_options = \<lparr>opt_maxSeparators = None, opt_thresholds = None\<rparr>"

definition balancer_with :: "string list \<Rightarrow> SeparatorBalancer" where
  "balancer_with h =
     \<lparr>historySize = 100, history = h, targets = default_targets, diversityStrength = 4 / 5\<rparr>"

definition scores_bu_brak :: scores where
  "scores_bu_brak =
     \<lparr>apostrophe = 0, dot = 280, hyphen = 0, space = 0, tilde = 105, colon = 0\<rparr>"

definition scores_brak_drak :: scores where
  "scores_brak_drak =
     \<lparr>apostrophe = 0, dot = 0, hyphen = 345, space = 200, tilde = 185, colon = 0\<rparr>"





section \<open>Properties of the codec and the interleaver\<close>

lemma fold_fromBase128_step_Some:
  "fold fromBase128_step (map Some ds) (Some a) = Some (horner a ds)"
  by (induction ds arbitrary: a) (simp_all add: horner_def fromBase128_step_def)

lemma horner_shift: "horner a ds = a * 128 ^ length ds + horner 0 ds"
proof (induction ds arbitrary: a)
  case Nil
  then show ?case by (simp add: horner_def)
next
  case (Cons d ds)
  have "horner a (d # ds) = horner (a * 128 + d) ds" by (simp add: horner_def)
  also have "\<dots> = (a * 128 + d) * 128 ^ length ds + horner 0 ds" by (rule Cons.IH)
  also have "horner 0 (d # ds) = horner d ds" by (simp add: horner_def)
  then have "horner 0 (d # ds) = d * 128 ^ length ds + horner 0 ds"
    using Cons.IH [of d] by simp
  then have "(a * 128 + d) * 128 ^ length ds + horner 0 ds
             = a * 128 ^ length (d # ds) + horner 0 (d # ds)"
    by (simp add: algebra_simps)
  finally show ?case .
qed

lemma horner_toBase128_loop:
  "0 \<le> remaining \<Longrightarrow>
   horner 0 (toBase128_loop remaining digits) = remaining * 128 ^ length digits + horner 0 digits"
proof (induction remaining digits rule: toBase128_loop.induct)
  case (1 remaining digits)
  show ?case
  proof (cases "remaining > 0")
    case True
    have nn: "0 \<le> remaining div 128" using True by simp
    have "horner 0 (toBase128_loop remaining digits)
          = horner 0 (toBase128_loop (remaining div 128) ((remaining mod 128) # digits))"
      using True by (simp add: toBase128_loop.simps [of remaining])
    also have "\<dots> = (remaining div 128) * 128 ^ length ((remaining mod 128) # digits)
                       + horner 0 ((remaining mod 128) # digits)"
      using "1.IH" [OF True nn] .
    also have "horner 0 ((remaining mod 128) # digits)
               = (remaining mod 128) * 128 ^ length digits + horner 0 digits"
      using horner_shift [of "remaining mod 128" digits] by (simp add: horner_def)
    finally have "horner 0 (toBase128_loop remaining digits)
          = ((remaining div 128) * 128 + remaining mod 128) * 128 ^ length digits + horner 0 digits"
      by (simp only: length_Cons power_Suc algebra_simps)
    moreover have "(remaining div 128) * 128 + remaining mod 128 = remaining" by simp
    ultimately show ?thesis by (simp only:)
  next
    case False
    with "1.prems" have "remaining = 0" by simp
    then show ?thesis by (simp add: toBase128_loop.simps [of 0])
  qed
qed

lemma horner_toBase128: "0 \<le> x \<Longrightarrow> horner 0 (toBase128 x) = x"
  using horner_toBase128_loop [of x "[]"]
  by (simp add: toBase128_def horner_def)

lemma pad_loop_replicate:
  "pad_loop indices minLength = replicate (nat (minLength - int (length indices))) 0 @ indices"
proof (induction indices minLength rule: pad_loop.induct)
  case (1 indices minLength)
  show ?case
  proof (cases "int (length indices) < minLength")
    case True
    then have "nat (minLength - int (length indices))
               = Suc (nat (minLength - int (length (0 # indices))))" by simp
    then show ?thesis
      using "1.IH" [OF True] True
      by (simp add: pad_loop.simps [of indices] replicate_app_Cons_same)
  next
    case False
    then show ?thesis by (simp add: pad_loop.simps [of indices])
  qed
qed

lemma horner_replicate_zero: "horner 0 (replicate k 0 @ ds) = horner 0 ds"
  by (induction k) (simp_all add: horner_def)

lemma horner_encode: "0 \<le> x \<Longrightarrow> horner 0 (encodeToSyllableIndices x m) = x"
  by (simp add: encodeToSyllableIndices_def pad_loop_replicate horner_replicate_zero
      horner_toBase128)

lemma interleave_loop_map:
  "right < int (length ds) \<Longrightarrow>
   interleave_loop (map f ds) left right step (map f result)
   = map f (interleave_loop ds left right step result)"
proof (induction ds left right step result rule: interleave_loop.induct)
  case (1 digits left right step result)
  show ?case
  proof (cases "int left \<le> right")
    case False
    then show ?thesis
      by (simp add: interleave_loop.simps [of _ left right])
  next
    case True
    have r: "nat right < length digits" and l: "left < length digits"
      using True "1.prems" by auto
    have r': "right - 1 < int (length digits)" using "1.prems" by simp
    show ?thesis
      using True r l "1.IH"(1) [OF True refl _ r'] "1.IH"(2) [OF True refl _ _ r']
        "1.IH"(3) [OF True refl _ _ _ "1.prems"] "1.IH"(4) [OF True refl _ _ _ "1.prems"]
      by (simp add: interleave_loop.simps [of _ left right step] Let_def)
  qed
qed

lemma interleave_loop_four_phase:
  "interleave_loop ds left right step result = four_phase_cycle ds left right (step mod 4) result"
proof (induction ds left right step result rule: interleave_loop.induct)
  case (1 digits left right step result)
  show ?case
  proof (cases "int left \<le> right")
    case False
    then show ?thesis
      by (simp add: interleave_loop.simps [of _ left right] four_phase_cycle.simps [of _ left right])
  next
    case True
    have m: "Suc step mod 4 = Suc (step mod 4) mod 4" by (simp add: mod_Suc_eq)
    show ?thesis
      using True m "1.IH"(1) [OF True refl] "1.IH"(2) [OF True refl]
        "1.IH"(3) [OF True refl] "1.IH"(4) [OF True refl]
      by (simp add: interleave_loop.simps [of _ left right step]
          four_phase_cycle.simps [of _ left right "step mod 4"] Let_def)
  qed
qed

lemma length_interleave_loop:
  "int (length (interleave_loop ds left right step result))
   = int (length result) + max 0 (right + 1 - int left)"
proof (induction ds left right step result rule: interleave_loop.induct)
  case (1 digits left right step result)
  show ?case
  proof (cases "int left \<le> right")
    case False
    then show ?thesis
      by (simp add: interleave_loop.simps [of _ left right])
  next
    case True
    show ?thesis
      using True "1.IH"(1) [OF True refl] "1.IH"(2) [OF True refl]
        "1.IH"(3) [OF True refl] "1.IH"(4) [OF True refl]
      by (simp add: interleave_loop.simps [of _ left right step] Let_def)
  qed
qed

lemma mset_interleave_loop_upt:
  "right < int n \<Longrightarrow>
   mset (interleave_loop [0..<n] left right step result)
   = mset result + mset [left..<nat (right + 1)]"
proof (induction "[0..<n]" left right step result rule: interleave_loop.induct)
  case (1 left right step result)
  show ?case
  proof (cases "int left \<le> right")
    case False
    then show ?thesis
      by (simp add: interleave_loop.simps [of _ left right])
  next
    case True
    have r: "nat right < n" and l: "left < n"
      using True "1.prems" by auto
    have r': "right - 1 < int n" using "1.prems" by simp
    have nr: "[0..<n] ! nat right = nat right" and nl: "[0..<n] ! left = left"
      using r l by simp_all
    have up_r: "mset [left..<nat (right + 1)] = mset [left..<nat right] + {#nat right#}"
    proof -
      have "nat (right + 1) = Suc (nat right)" using True by simp
      moreover have "left \<le> nat right" using True by simp
      ultimately show ?thesis by simp
    qed
    have up_l: "mset [left..<nat (right + 1)] = mset [Suc left..<nat (right + 1)] + {#left#}"
    proof -
      have "left < nat (right + 1)" using True by simp
      then show ?thesis by (simp add: upt_rec [of left])
    qed
    have eqr: "nat (right - 1 + 1) = nat right" by simp
    show ?thesis
      using True nr nl up_r up_l
        "1.hyps"(1) [OF True refl _ r'] "1.hyps"(2) [OF True refl _ _ r']
        "1.hyps"(3) [OF True refl _ _ _ "1.prems"] "1.hyps"(4) [OF True refl _ _ _ "1.prems"]
      by (simp add: interleave_loop.simps [of _ left right step] Let_def eqr)
  qed
qed

lemma scatter_loop_length:
  "\<forall>i\<in>set is. p ! i < length result \<Longrightarrow>
   length (scatter_loop p ys is result) = length result"
  by (induction "is" arbitrary: result) (simp_all add: array_set_def)

lemma scatter_loop_nth:
  "\<forall>i\<in>set is. p ! i < length result \<and> ys ! i = xs ! (p ! i) \<Longrightarrow> j < length result \<Longrightarrow>
   scatter_loop p ys is result ! j
   = (if j \<in> (\<lambda>i. p ! i) ` set is then Some (xs ! j) else result ! j)"
proof (induction "is" arbitrary: result)
  case Nil
  then show ?case by simp
next
  case (Cons i "is")
  let ?r = "array_set result (p ! i) (ys ! i)"
  have pi: "p ! i < length result" and yi: "ys ! i = xs ! (p ! i)"
    using Cons.prems(1) by simp_all
  have r: "?r = result[p ! i := Some (xs ! (p ! i))]"
    using pi yi by (simp add: array_set_def)
  have len: "length ?r = length result" using r by simp
  have "scatter_loop p ys is ?r ! j
        = (if j \<in> (\<lambda>i. p ! i) ` set is then Some (xs ! j) else ?r ! j)"
    using Cons.IH [of ?r] Cons.prems len by simp
  then show ?case
    using Cons.prems(2) r by (auto simp: nth_list_update)
qed

lemma interleave_upt_perm:
  assumes "2 \<le> n"
  shows "mset (interleave_loop [0..<n] 1 (int n - 1) 0 [[0..<n] ! 0]) = mset [0..<n]"
proof -
  have "mset (interleave_loop [0..<n] 1 (int n - 1) 0 [0]) = mset [0] + mset [1..<nat (int n - 1 + 1)]"
    by (rule mset_interleave_loop_upt) simp
  moreover have "[0..<n] = 0 # [1..<n]" using assms by (simp add: upt_rec [of 0])
  moreover have "[0..<n] ! 0 = 0" using assms by simp
  ultimately show ?thesis by simp
qed

lemma interleaveDigits_as_map:
  assumes "2 \<le> length xs"
  shows "interleaveDigits xs
         = map (\<lambda>i. xs ! i) (interleave_loop [0..<length xs] 1 (int (length xs) - 1) 0 [[0..<length xs] ! 0])"
proof -
  let ?n = "length xs"
  let ?f = "\<lambda>i. xs ! i"
  have xs: "map ?f [0..<?n] = xs" by (rule map_nth)
  have "0 < ?n" using assms by arith
  then have z: "[0..<?n] ! 0 = 0" by (simp add: upt_rec [of 0])
  have "interleave_loop (map ?f [0..<?n]) 1 (int ?n - 1) 0 (map ?f [[0..<?n] ! 0])
        = map ?f (interleave_loop [0..<?n] 1 (int ?n - 1) 0 [[0..<?n] ! 0])"
    by (rule interleave_loop_map) simp
  then have "interleave_loop xs 1 (int ?n - 1) 0 [xs ! 0]
        = map ?f (interleave_loop [0..<?n] 1 (int ?n - 1) 0 [[0..<?n] ! 0])"
    by (simp only: xs z list.map)
  moreover have "length xs \<noteq> 0" "length xs \<noteq> 1" using assms by arith+
  ultimately show ?thesis by (simp only: interleaveDigits_def if_False)
qed

lemma length_interleaveDigits: "length (interleaveDigits xs) = length xs"
proof -
  have "int (length (interleave_loop xs 1 (int (length xs) - 1) 0 [xs ! 0])) = int (length xs)"
    if "2 \<le> length xs"
    using that length_interleave_loop [of xs 1 "int (length xs) - 1" 0 "[xs ! 0]"] by simp
  then show ?thesis
    by (cases "length xs = 0"; cases "length xs = 1") (simp_all add: interleaveDigits_def)
qed

lemma mset_interleaveDigits: "mset (interleaveDigits xs) = mset xs"
proof (cases "2 \<le> length xs")
  case True
  let ?p = "interleave_loop [0..<length xs] 1 (int (length xs) - 1) 0 [[0..<length xs] ! 0]"
  have "mset (interleaveDigits xs) = image_mset (\<lambda>i. xs ! i) (mset ?p)"
    using interleaveDigits_as_map [OF True] by simp
  also have "\<dots> = image_mset (\<lambda>i. xs ! i) (mset [0..<length xs])"
    using interleave_upt_perm [OF True] by simp
  also have "\<dots> = mset (map (\<lambda>i. xs ! i) [0..<length xs])" by simp
  also have "\<dots> = mset xs" by (simp only: map_nth)
  finally show ?thesis .
next
  case False
  then have "length xs = 0 \<or> length xs = 1" by arith
  then show ?thesis by (auto simp: interleaveDigits_def)
qed

lemma deinterleave_interleave: "deinterleaveDigits (interleaveDigits xs) = map Some xs"
proof (cases "2 \<le> length xs")
  case False
  then have "length xs = 0 \<or> length xs = 1" by arith
  then show ?thesis by (auto simp: interleaveDigits_def deinterleaveDigits_def)
next
  case True
  let ?n = "length xs"
  let ?p = "interleave_loop [0..<?n] 1 (int ?n - 1) 0 [[0..<?n] ! 0]"
  let ?ys = "interleaveDigits xs"
  have ys: "?ys = map (\<lambda>i. xs ! i) ?p" by (rule interleaveDigits_as_map [OF True])
  have len_ys: "length ?ys = ?n" by (rule length_interleaveDigits)
  have len_p: "length ?p = ?n" using ys len_ys by (metis length_map)
  have perm: "mset ?p = mset [0..<?n]" by (rule interleave_upt_perm [OF True])
  have set_p: "set ?p = {0..<?n}" using perm by (metis mset_eq_setD set_upt)
  have in_range: "?p ! i < ?n" if "i < ?n" for i
    using that set_p len_p by (metis atLeastLessThan_iff nth_mem)
  have de: "deinterleaveDigits ?ys = scatter_loop ?p ?ys [0..<?n] (replicate ?n None)"
    using True len_ys by (simp add: deinterleaveDigits_def Let_def)
  have pre: "\<forall>i\<in>set [0..<?n]. ?p ! i < length (replicate ?n (None :: 'a option))
               \<and> ?ys ! i = xs ! (?p ! i)"
  proof
    fix i assume "i \<in> set [0..<?n]"
    then have i: "i < ?n" by simp
    have "?ys ! i = xs ! (?p ! i)" using i len_p by (simp add: ys)
    then show "?p ! i < length (replicate ?n (None :: 'a option)) \<and> ?ys ! i = xs ! (?p ! i)"
      using in_range [OF i] by simp
  qed
  have len: "length (scatter_loop ?p ?ys [0..<?n] (replicate ?n None)) = ?n"
    using scatter_loop_length [of "[0..<?n]" ?p "replicate ?n None" ?ys] pre by simp
  have nth: "scatter_loop ?p ?ys [0..<?n] (replicate ?n None) ! j = Some (xs ! j)" if "j < ?n" for j
  proof -
    have "j \<in> set ?p" using that set_p by simp
    then obtain i where "i < length ?p" "?p ! i = j" by (auto simp: in_set_conv_nth)
    then have "j \<in> (\<lambda>i. ?p ! i) ` set [0..<?n]" using len_p by auto
    then show ?thesis
      using scatter_loop_nth [OF pre, of j] that by simp
  qed
  have "scatter_loop ?p ?ys [0..<?n] (replicate ?n None) = map Some xs"
    by (rule nth_equalityI) (use len nth in simp_all)
  then show ?thesis
    by (simp only: de)
qed

lemma toBase128_loop_digits:
  "set (toBase128_loop remaining digits) \<subseteq> set digits \<union> {0..<128}"
proof (induction remaining digits rule: toBase128_loop.induct)
  case (1 remaining digits)
  show ?case
  proof (cases "remaining > 0")
    case True
    have "remaining mod 128 \<in> {0..<128}" by simp
    then show ?thesis
      using "1.IH" [OF True] True by (auto simp: toBase128_loop.simps [of remaining digits])
  next
    case False
    then show ?thesis by (simp add: toBase128_loop.simps [of remaining])
  qed
qed

lemma toBase128_loop_length: "length digits \<le> length (toBase128_loop remaining digits)"
proof (induction remaining digits rule: toBase128_loop.induct)
  case (1 remaining digits)
  show ?case
  proof (cases "remaining > 0")
    case True
    then show ?thesis
      using "1.IH" [OF True] by (simp add: toBase128_loop.simps [of remaining digits])
  next
    case False
    then show ?thesis by (simp add: toBase128_loop.simps [of remaining])
  qed
qed

lemma toBase128_loop_nonempty: "0 < remaining \<Longrightarrow> toBase128_loop remaining [] \<noteq> []"
  using toBase128_loop_length [of "[remaining mod 128]" "remaining div 128"]
  by (auto simp: toBase128_loop.simps [of remaining "[]"])

lemma toBase128_negative: "x < 0 \<Longrightarrow> toBase128 x = []"
  by (simp add: toBase128_def toBase128_loop.simps [of x])

lemma toBase128_nonempty: "0 \<le> x \<Longrightarrow> toBase128 x \<noteq> []"
  using toBase128_loop_nonempty [of x] by (auto simp: toBase128_def)

lemma toBase128_digits: "set (toBase128 x) \<subseteq> {0..<128}"
  using toBase128_loop_digits [of x "[]"] by (auto simp: toBase128_def)

lemma encode_digits: "set (encodeToSyllableIndices x m) \<subseteq> {0..<128}"
  using toBase128_digits [of x]
  by (auto simp: encodeToSyllableIndices_def pad_loop_replicate)

text \<open>
  \<^bold>\<open>Claim C1.\<close> For every non-negative integer \<open>x\<close> and every requested minimum
  length \<open>m\<close>, decoding the base-128 digits of \<open>x\<close> gives \<open>x\<close> back, and so does
  the whole index pipeline: encode with padding, interleave, de-interleave, decode. The
  de-interleaver leaves no slot unassigned, so the decoded number is never \<^verbatim>\<open>NaN\<close>.
\<close>

theorem C1_codec_round_trip:
  "0 \<le> x \<Longrightarrow>
   fromBase128 (map Some (toBase128 x)) = Some x \<and>
   decodeSyllableIndices
     (deinterleaveDigits (interleaveDigits (encodeToSyllableIndices x m))) = Some x"
  by (simp add: decodeSyllableIndices_def fromBase128_def deinterleave_interleave
      fold_fromBase128_step_Some horner_toBase128 horner_encode)

theorem C1_codec_round_trip_witness:
  "(0::int) \<le> 9622927 \<and>
   fromBase128 (map Some (toBase128 9622927)) = Some 9622927 \<and>
   decodeSyllableIndices
     (deinterleaveDigits (interleaveDigits (encodeToSyllableIndices 9622927 6))) = Some 9622927"
  using C1_codec_round_trip [of 9622927 6] by simp

lemma toBase128_example: "toBase128 9622927 = [4, 75, 43, 15]"
  by (simp add: toBase128_def toBase128_loop.simps)

lemma encode_example: "encodeToSyllableIndices 9622927 6 = [0, 0, 4, 75, 43, 15]"
  by (simp add: encodeToSyllableIndices_def toBase128_example pad_loop.simps)

lemma interleave_example:
  "interleaveDigits [1, 2, 3, 4, 5, 6, 7, 8, 9 :: int] = [4, 7, 2, 9, 1, 8, 3, 6, 5]"
  by (simp add: interleaveDigits_def interleave_loop.simps)

text \<open>
  \<^bold>\<open>Claim C2.\<close> For every sequence of length at most 32, whatever its digit values,
  de-interleaving the interleaved sequence gives the sequence back, with every slot
  assigned. (The lemma \<open>deinterleave_interleave\<close> above shows it for every length.)
\<close>

theorem C2_deinterleave_interleave:
  "length digits \<le> 32 \<Longrightarrow> deinterleaveDigits (interleaveDigits digits) = map Some digits"
  by (rule deinterleave_interleave)

theorem C2_deinterleave_interleave_witness:
  "length [1, 2, 3, 4, 5, 6, 7, 8, 9 :: int] \<le> 32 \<and>
   deinterleaveDigits (interleaveDigits [1, 2, 3, 4, 5, 6, 7, 8, 9 :: int])
   = [Some 1, Some 2, Some 3, Some 4, Some 5, Some 6, Some 7, Some 8, Some 9]"
  using C2_deinterleave_interleave [of "[1, 2, 3, 4, 5, 6, 7, 8, 9 :: int]"] by simp

text \<open>
  \<^bold>\<open>Claim C5, as the code has it.\<close> Encoding never fails. A negative number encodes to
  the empty sequence, left-padded with zero digits up to the minimum length; zero encodes
  to the single digit 0; a non-negative number encodes to a non-empty sequence, and every
  digit of it lies in \<open>[0, 128)\<close>.
\<close>

theorem C5_encode_total:
  "(x < 0 \<longrightarrow> toBase128 x = [] \<and> encodeToSyllableIndices x m = replicate (nat m) 0) \<and>
   toBase128 0 = [0] \<and>
   (0 \<le> x \<longrightarrow> toBase128 x \<noteq> [] \<and> encodeToSyllableIndices x m \<noteq> [] \<and>
      (\<forall>d \<in> set (encodeToSyllableIndices x m). 0 \<le> d \<and> d < 128))"
proof -
  have "encodeToSyllableIndices x m \<noteq> []" if "0 \<le> x"
    using toBase128_nonempty [OF that] by (simp add: encodeToSyllableIndices_def pad_loop_replicate)
  moreover have "\<forall>d \<in> set (encodeToSyllableIndices x m). 0 \<le> d \<and> d < 128"
    using encode_digits [of x m] by auto
  ultimately show ?thesis
    by (simp add: toBase128_negative toBase128_nonempty encodeToSyllableIndices_def
        pad_loop_replicate) (simp add: toBase128_def)
qed

theorem C5_encode_total_witness:
  "toBase128 (- 5) = [] \<and> encodeToSyllableIndices (- 5) 3 = [0, 0, 0] \<and>
   toBase128 129 \<noteq> [] \<and> encodeToSyllableIndices 129 3 \<noteq> []"
  using C5_encode_total [of "- 5" 3] C5_encode_total [of 129 3]
  by (simp add: numeral_3_eq_3)

text \<open>
  Nothing in \<^verbatim>\<open>toBase128\<close> or \<^verbatim>\<open>encodeToSyllableIndices\<close> rejects a negative number:
  \<^verbatim>\<open>-5 === 0\<close> is false and the loop \<^verbatim>\<open>while (remaining > 0)\<close> is not entered, so the empty
  array is returned and then padded.
\<close>

theorem C5_negative_counterexample:
  "toBase128 (- 5) = [] \<and> encodeToSyllableIndices (- 5) 0 = [] \<and>
   encodeToSyllableIndices (- 5) 3 = [0, 0, 0]"
  by (simp add: encodeToSyllableIndices_def toBase128_def toBase128_loop.simps pad_loop.simps)

lemma interleaveDigits_spec: "interleaveDigits digits = interleave_spec digits"
proof (cases "2 \<le> length digits")
  case True
  then have "length digits \<noteq> 0" "length digits \<noteq> 1" "\<not> length digits \<le> 1" by arith+
  moreover have "digits ! 0 = hd digits" using True by (cases digits) simp_all
  ultimately show ?thesis
    using interleave_loop_four_phase [of digits 1 "int (length digits) - 1" 0 "[digits ! 0]"]
    by (simp add: interleaveDigits_def interleave_spec_def)
next
  case False
  then have "length digits = 0 \<or> length digits = 1" by arith
  then show ?thesis by (auto simp: interleaveDigits_def interleave_spec_def)
qed

text \<open>
  \<^bold>\<open>Claim C9.\<close> \<^verbatim>\<open>interleaveDigits\<close> returns a sequence of length 0 or 1 unchanged;
  in every case it computes the four-phase cycle of the description (start from the first
  digit; phase 0 takes at the right cursor and prepends, phase 1 takes at the right cursor
  and appends, phase 2 takes at the left cursor and prepends, phase 3 takes at the left
  cursor and appends, the phase wrapping modulo 4, until \<open>left > right\<close>); and its output
  has the length and the multiset of digit values of its input.
\<close>

theorem C9_interleaveDigits:
  "(length digits \<le> 1 \<longrightarrow> interleaveDigits digits = digits) \<and>
   interleaveDigits digits = interleave_spec digits \<and>
   length (interleaveDigits digits) = length digits \<and>
   mset (interleaveDigits digits) = mset digits"
proof -
  have "interleaveDigits digits = digits" if "length digits \<le> 1"
  proof -
    from that have "length digits = 0 \<or> length digits = 1" by arith
    then show ?thesis by (auto simp: interleaveDigits_def)
  qed
  then show ?thesis
    by (simp add: interleaveDigits_spec [symmetric] length_interleaveDigits mset_interleaveDigits)
qed

theorem C9_interleaveDigits_witness:
  "interleaveDigits [7 :: int] = [7] \<and>
   interleaveDigits [1, 2, 3, 4, 5, 6, 7, 8, 9 :: int] = [4, 7, 2, 9, 1, 8, 3, 6, 5] \<and>
   interleave_spec [1, 2, 3, 4, 5, 6, 7, 8, 9 :: int] = [4, 7, 2, 9, 1, 8, 3, 6, 5] \<and>
   length (interleaveDigits [1, 2, 3, 4, 5, 6, 7, 8, 9 :: int]) = 9"
proof -
  have a: "interleaveDigits [7 :: int] = [7]"
    using C9_interleaveDigits [of "[7 :: int]"] by simp
  have b: "interleave_spec [1, 2, 3, 4, 5, 6, 7, 8, 9 :: int]
           = interleaveDigits [1, 2, 3, 4, 5, 6, 7, 8, 9 :: int]"
    using C9_interleaveDigits [of "[1, 2, 3, 4, 5, 6, 7, 8, 9 :: int]"] by simp
  show ?thesis
    using a b by (simp add: interleave_example)
qed

section \<open>Properties of the decoder\<close>

lemma match_syllable_Some:
  "match_syllable db r [4, 3, 2] = Some l \<longleftrightarrow> longest_match db r l"
  by (auto simp: longest_match_def is_prefix_syllable_def)

lemma match_syllable_None:
  "match_syllable db r [4, 3, 2] = None \<longleftrightarrow> no_match db r"
  by (auto simp: no_match_def is_prefix_syllable_def)

lemma longest_match_unique:
  "longest_match db r l \<Longrightarrow> longest_match db r l' \<Longrightarrow> l = l'"
  unfolding longest_match_def by (metis linorder_neqE_nat)

lemma longest_match_bounds: "longest_match db r l \<Longrightarrow> 2 \<le> l \<and> l \<le> length r"
  by (auto simp: longest_match_def is_prefix_syllable_def)

lemma longest_match_not_no_match: "longest_match db r l \<Longrightarrow> \<not> no_match db r"
  by (auto simp: longest_match_def no_match_def)

lemma greedy_Nil: "greedy db [] syls r \<longleftrightarrow> syls = [] \<and> r = []"
  by (subst greedy.simps) (auto dest: longest_match_bounds)

lemma parse_loop_Nil: "parse_loop db [] acc = Inr acc"
  by (simp add: parse_loop.simps [of db "[]"])

lemma parse_loop_Inr:
  "parse_loop db r acc = Inr syls \<longleftrightarrow> (\<exists>syls'. syls = acc @ syls' \<and> greedy db r syls' [])"
proof (induction "length r" arbitrary: r acc rule: less_induct)
  case less
  show ?case
  proof (cases "r = []")
    case True
    then show ?thesis by (auto simp: parse_loop_Nil greedy_Nil)
  next
    case False
    show ?thesis
    proof (cases "match_syllable db r [4, 3, 2]")
      case None
      then have nm: "no_match db r" by (simp only: match_syllable_None)
      have "\<not> greedy db r syls' []" for syls'
        using False nm by (subst greedy.simps) (auto dest: longest_match_not_no_match)
      then show ?thesis using None False by (simp add: parse_loop.simps [of db r])
    next
      case (Some l)
      then have lm: "longest_match db r l" by (simp only: match_syllable_Some)
      have shorter: "length (drop l r) < length r"
        using longest_match_bounds [OF lm] False by simp
      have step: "parse_loop db r acc = parse_loop db (drop l r) (acc @ [take l r])"
        using Some False by (simp add: parse_loop.simps [of db r])
      have g: "greedy db r syls' [] \<longleftrightarrow>
               (\<exists>syls''. syls' = take l r # syls'' \<and> greedy db (drop l r) syls'' [])" for syls'
        using False lm by (subst greedy.simps) (auto dest: longest_match_unique)
      show ?thesis
        unfolding step less.hyps [OF shorter] g by auto
    qed
  qed
qed

lemma parse_loop_Inl:
  "parse_loop db r acc = Inl e \<longleftrightarrow>
   (\<exists>syls' r'. e = UnrecognizedSyllable r' \<and> greedy db r syls' r' \<and> r' \<noteq> [] \<and> no_match db r')"
proof (induction "length r" arbitrary: r acc rule: less_induct)
  case less
  show ?case
  proof (cases "r = []")
    case True
    then show ?thesis by (auto simp: parse_loop_Nil greedy_Nil)
  next
    case False
    show ?thesis
    proof (cases "match_syllable db r [4, 3, 2]")
      case None
      then have nm: "no_match db r" by (simp only: match_syllable_None)
      have "greedy db r syls' r' \<longleftrightarrow> syls' = [] \<and> r' = r" for syls' r'
        using nm by (subst greedy.simps) (auto dest: longest_match_not_no_match)
      then show ?thesis using None False nm by (auto simp: parse_loop.simps [of db r])
    next
      case (Some l)
      then have lm: "longest_match db r l" by (simp only: match_syllable_Some)
      have shorter: "length (drop l r) < length r"
        using longest_match_bounds [OF lm] False by simp
      have step: "parse_loop db r acc = parse_loop db (drop l r) (acc @ [take l r])"
        using Some False by (simp add: parse_loop.simps [of db r])
      have g: "greedy db r syls' r' \<and> no_match db r' \<longleftrightarrow>
               (\<exists>syls''. syls' = take l r # syls'' \<and> greedy db (drop l r) syls'' r' \<and> no_match db r')"
        for syls' r'
        using lm by (subst greedy.simps) (auto dest: longest_match_unique longest_match_not_no_match)
      have "(\<exists>syls' r'. e = UnrecognizedSyllable r' \<and> greedy db r syls' r' \<and> r' \<noteq> [] \<and> no_match db r')
            \<longleftrightarrow> (\<exists>syls' r'. e = UnrecognizedSyllable r' \<and> r' \<noteq> [] \<and> (greedy db r syls' r' \<and> no_match db r'))"
        by auto
      also have "\<dots> \<longleftrightarrow> (\<exists>syls'' r'. e = UnrecognizedSyllable r' \<and> r' \<noteq> [] \<and>
                     greedy db (drop l r) syls'' r' \<and> no_match db r')"
        unfolding g by auto
      also have "\<dots> \<longleftrightarrow> parse_loop db (drop l r) (acc @ [take l r]) = Inl e"
        unfolding less.hyps [OF shorter] by auto
      finally show ?thesis unfolding step by simp
    qed
  qed
qed

lemmas string_eval = clean_def toLowerCase_def toLowerCase_char_def
  is_lower_letter_def lower_letters_def upper_letters_def

lemma greedy_nonempty_source: "greedy db s syls r \<Longrightarrow> r \<noteq> [] \<Longrightarrow> s \<noteq> []"
  by (auto simp: greedy_Nil)

lemma parse_Inr_iff:
  "parseVersionToSyllables db version = Inr syls \<longleftrightarrow>
   clean version \<noteq> [] \<and> greedy db (clean version) syls []"
proof (cases "clean version = []")
  case True
  then show ?thesis by (simp add: parseVersionToSyllables_def Let_def)
next
  case False
  then have "version \<noteq> []" by (auto simp: clean_def toLowerCase_def)
  then show ?thesis
    using False parse_loop_Inr [of db "clean version" "[]" syls]
    by (simp add: parseVersionToSyllables_def Let_def)
qed

lemma parse_Unrecognized_iff:
  "parseVersionToSyllables db version = Inl (UnrecognizedSyllable r) \<longleftrightarrow>
   (\<exists>syls. greedy db (clean version) syls r \<and> r \<noteq> [] \<and> no_match db r)"
proof (cases "clean version = []")
  case True
  then show ?thesis
    by (auto simp: parseVersionToSyllables_def Let_def greedy_Nil)
next
  case False
  then have "version \<noteq> []" by (auto simp: clean_def toLowerCase_def)
  then show ?thesis
    using False parse_loop_Inl [of db "clean version" "[]" "UnrecognizedSyllable r"]
    by (simp add: parseVersionToSyllables_def Let_def)
qed

text \<open>
  \<^bold>\<open>Claim C6, as the code has it.\<close> The parser lower-cases the input and then deletes
  every character that is not a lowercase letter. It returns the syllables \<open>syls\<close>
  exactly when the cleaned stream is not empty and consuming it from the front, each time
  by the longest inventory syllable of length 4, then 3, then 2 that is a prefix of what
  remains, emits \<open>syls\<close> and leaves nothing. It raises the error that quotes the
  remainder \<open>r\<close> exactly when this consumption reaches the non-empty remainder \<open>r\<close> of
  which no inventory syllable of length 4, 3 or 2 is a prefix.
\<close>

theorem C6_parser:
  "(parseVersionToSyllables db version = Inr syls \<longleftrightarrow>
      filter is_lower_letter (toLowerCase version) \<noteq> [] \<and>
      greedy db (filter is_lower_letter (toLowerCase version)) syls []) \<and>
   (parseVersionToSyllables db version = Inl (UnrecognizedSyllable r) \<longleftrightarrow>
      (\<exists>syls. greedy db (filter is_lower_letter (toLowerCase version)) syls r \<and>
         r \<noteq> [] \<and> no_match db r))"
  using parse_Inr_iff [of db version syls] parse_Unrecognized_iff [of db version r]
  by (simp add: clean_def)

lemma parse_example_ok:
  "parseVersionToSyllables [''ba'', ''be'', ''bi''] ''Ba-be. BI'' = Inr [''ba'', ''be'', ''bi'']"
  by (simp add: parseVersionToSyllables_def string_eval parse_loop.simps)

lemma parse_example_bad:
  "parseVersionToSyllables [''ba'', ''be'', ''bi''] ''ba-xbe''
   = Inl (UnrecognizedSyllable ''xbe'')"
  by (simp add: parseVersionToSyllables_def string_eval parse_loop.simps)

theorem C6_parser_witness:
  "parseVersionToSyllables [''ba'', ''be'', ''bi''] ''Ba-be. BI'' = Inr [''ba'', ''be'', ''bi''] \<and>
   greedy [''ba'', ''be'', ''bi''] ''babebi'' [''ba'', ''be'', ''bi''] [] \<and>
   parseVersionToSyllables [''ba'', ''be'', ''bi''] ''ba-xbe'' = Inl (UnrecognizedSyllable ''xbe'') \<and>
   (\<exists>syls. greedy [''ba'', ''be'', ''bi''] ''baxbe'' syls ''xbe'' \<and> no_match [''ba'', ''be'', ''bi''] ''xbe'')"
proof -
  have c: "filter is_lower_letter (toLowerCase ''Ba-be. BI'') = ''babebi''"
    "filter is_lower_letter (toLowerCase ''ba-xbe'') = ''baxbe''"
    by (simp_all add: string_eval)
  show ?thesis
    using C6_parser [of "[''ba'', ''be'', ''bi'']" "''Ba-be. BI''" "[''ba'', ''be'', ''bi'']" "''xbe''"]
      C6_parser [of "[''ba'', ''be'', ''bi'']" "''ba-xbe''" "[]" "''xbe''"]
    unfolding c by (simp add: parse_example_ok parse_example_bad)
qed

text \<open>
  The lower-casing comes first: in \<^verbatim>\<open>BAba\<close> the capitals are letters of the stream, not
  characters that are deleted. Deleting every character that is not a lowercase letter
  from the input itself leaves \<^verbatim>\<open>ba\<close>, one syllable; the parser returns two.
\<close>

theorem C6_uppercase_counterexample:
  "parseVersionToSyllables [''ba''] ''BAba'' = Inr [''ba'', ''ba''] \<and>
   filter is_lower_letter ''BAba'' = ''ba'' \<and>
   parse_loop [''ba''] (filter is_lower_letter ''BAba'') [] = Inr [''ba'']"
  by (simp add: parseVersionToSyllables_def string_eval parse_loop.simps)

lemma parse_never_empty_list: "parseVersionToSyllables db version \<noteq> Inr []"
proof
  assume "parseVersionToSyllables db version = Inr []"
  then have "clean version \<noteq> []" and "greedy db (clean version) [] []"
    by (simp_all add: parse_Inr_iff)
  then show False by (subst (asm) greedy.simps) auto
qed

text \<open>
  \<^bold>\<open>Claim C10.\<close> When the input is empty, or no letter a to z is left of it after
  lower-casing, \<^verbatim>\<open>parseVersionToSyllables\<close> throws (the first or the second error of the
  function) and does not return the empty syllable list; \<^verbatim>\<open>decodeVersion\<close> then throws
  the same error and returns no number.
\<close>

theorem C10_no_letters:
  "clean version = [] \<Longrightarrow>
   parseVersionToSyllables db version
     = Inl (if version = [] then EmptyVersion else NoValidSyllables) \<and>
   parseVersionToSyllables db version \<noteq> Inr [] \<and>
   decodeVersion cfg db version
     = Inl (if version = [] then EmptyVersion else NoValidSyllables)"
  by (simp add: parseVersionToSyllables_def decodeVersion_def Let_def)

theorem C10_no_letters_witness:
  "clean ''- . ~'' = [] \<and>
   parseVersionToSyllables [''ba'', ''be''] ''- . ~'' = Inl NoValidSyllables \<and>
   parseVersionToSyllables [''ba'', ''be''] [] = Inl EmptyVersion \<and>
   decodeVersion example_config [''ba'', ''be''] ''- . ~'' = Inl NoValidSyllables \<and>
   decodeVersion example_config [''ba'', ''be''] [] = Inl EmptyVersion"
proof -
  have a: "clean ''- . ~'' = []" and b: "clean [] = []" by (simp_all add: string_eval)
  show ?thesis
    using C10_no_letters [OF a, of "[''ba'', ''be'']" example_config] C10_no_letters [OF b, of "[''ba'', ''be'']" example_config] a
    by simp
qed

lemma longest_match_head:
  assumes shape: "syllable_shape db" and unamb: "prefix_unambiguous db"
    and s: "s \<in> set db" and rest: "set rest \<subseteq> set db"
  shows "longest_match db (s @ concat rest) (length s)"
proof -
  have ls: "2 \<le> length s" "length s \<le> 4" using shape s by (auto simp: syllable_shape_def)
  have a: "length s \<in> {2, 3, 4}" using ls by auto
  have b: "is_prefix_syllable db (s @ concat rest) (length s)"
    using s by (simp add: is_prefix_syllable_def)
  have c: "\<not> is_prefix_syllable db (s @ concat rest) l'" if l': "l' \<in> {2, 3, 4}" "length s < l'" for l'
  proof
    assume "is_prefix_syllable db (s @ concat rest) l'"
    then have len: "l' \<le> length (s @ concat rest)" and u: "take l' (s @ concat rest) \<in> set db"
      by (simp_all add: is_prefix_syllable_def)
    let ?u = "take l' (s @ concat rest)"
    have lu: "length ?u = l'" using len by simp
    show False
    proof (cases rest)
      case Nil
      then show False using len l' by simp
    next
      case (Cons t rest')
      then have t: "t \<in> set db" using rest by simp
      then have lt: "2 \<le> length t" using shape by (auto simp: syllable_shape_def)
      have "l' \<le> length (s @ t)" using l' ls lt by auto
      then have e: "take l' (s @ concat rest) = take l' (s @ t)"
        using Cons by simp
      have "take (length ?u) (s @ t) = take l' (s @ t)" by (simp only: lu)
      then have eq: "take (length ?u) (s @ t) = ?u" by (simp only: e)
      have lt': "length s < length ?u" using l' by (simp only: lu)
      have "length s < length ?u \<longrightarrow> take (length ?u) (s @ t) \<noteq> ?u"
        using unamb s t u unfolding prefix_unambiguous_def by blast
      then show False using eq lt' by blast
    qed
  qed
  show ?thesis unfolding longest_match_def using a b c by blast
qed

lemma greedy_concat:
  assumes "syllable_shape db" and "prefix_unambiguous db"
  shows "set syls \<subseteq> set db \<Longrightarrow> greedy db (concat syls) syls []"
proof (induction syls)
  case Nil
  then show ?case by (simp add: greedy_stop)
next
  case (Cons s rest)
  have lm: "longest_match db (s @ concat rest) (length s)"
    using longest_match_head [OF assms] Cons.prems by simp
  have "greedy db (drop (length s) (s @ concat rest)) rest []"
    using Cons by simp
  from greedy_step [OF lm this] show ?case by simp
qed

lemma parse_concat:
  assumes "syllable_shape db" and "prefix_unambiguous db" and "set syls \<subseteq> set db"
    and "syls \<noteq> []" and "clean version = concat syls"
  shows "parseVersionToSyllables db version = Inr syls"
proof -
  obtain s rest where sr: "syls = s # rest" using assms(4) by (cases syls) auto
  then have "s \<in> set db" using assms(3) by simp
  then have "s \<noteq> []" using assms(1) by (auto simp: syllable_shape_def)
  then have "clean version \<noteq> []" using assms(5) sr by simp
  then show ?thesis
    using greedy_concat [OF assms(1,2,3)] assms(5) by (simp add: parse_Inr_iff)
qed

section \<open>Properties of the balancer\<close>












text \<open>
  The constructor gives a positive strength whenever the configured strength is absent
  or not negative: it replaces 0 by 0.3.
\<close>

lemma constructor_strength_positive:
  "(case cfg_diversityStrength c of None \<Rightarrow> True | Some s \<Rightarrow> 0 \<le> s) \<Longrightarrow>
   0 < diversityStrength (new_SeparatorBalancer c)"
  by (auto simp: new_SeparatorBalancer_def or_default_def split: option.splits)






section \<open>Properties of the separator engine and the generator\<close>

lemma join_Nil: "join [] xs = concat xs"
  by (induction "[] :: string" xs rule: join.induct) simp_all

lemma chooseSeparator_range:
  "fst (chooseSeparator cfg sc th ub g) = [] \<or> fst (chooseSeparator cfg sc th ub g) \<in> separator_strings"
proof -
  have "map_of separatorMap w = Some sep \<Longrightarrow> sep \<in> separator_strings" for w sep
    unfolding separator_strings_def by (metis map_of_SomeD image_eqI snd_conv)
  then show ?thesis
    by (auto simp: chooseSeparator_def Let_def split: prod.splits option.splits list.splits)
qed

lemma analyzeBoundary_defined:
  assumes "left \<noteq> []" and "right \<noteq> []" and "last left \<noteq> [] \<or> hd right \<noteq> []"
  shows "\<exists>sc. analyzeBoundary cfg left right all = Inr sc"
proof -
  have "\<not> (last_char (last left) = None \<and> first_char (hd right) = None)"
    using assms(3) by (auto simp: last_char_def first_char_def)
  then obtain d where "checkClusterDifficulty cfg (last_char (last left)) (first_char (hd right)) = Inr d"
    by (auto simp: checkClusterDifficulty_def Let_def)
  then show ?thesis
    using assms(1,2) by (simp add: analyzeBoundary_def Let_def)
qed

lemma analyzeBoundary_TypeError:
  "analyzeBoundary cfg left right all = Inl e \<Longrightarrow> e = TypeError"
  by (auto simp: analyzeBoundary_def checkClusterDifficulty_def Let_def split: if_splits sum.splits)

lemma scan_total:
  assumes nonempty: "\<forall>s \<in> set syllables. s \<noteq> []"
  shows "\<forall>i \<in> set is. 1 \<le> i \<and> i < length syllables \<Longrightarrow>
         \<exists>r g'. scan cfg syllables separators threshold is best g = (Inr r, g')"
proof (induction "is" arbitrary: best g)
  case Nil
  then show ?case by (cases best) auto
next
  case (Cons i rest)
  obtain bs bp bsep where best: "best = (bs, bp, bsep)" by (cases best) auto
  have i: "1 \<le> i" "i < length syllables" using Cons.prems by simp_all
  have rest: "\<forall>i \<in> set rest. 1 \<le> i \<and> i < length syllables" using Cons.prems by simp
  show ?case
  proof (cases "nearby separators i")
    case True
    then show ?thesis using Cons.IH [OF rest] best by simp
  next
    case False
    have l: "slice syllables 0 i \<noteq> []" using i by (auto simp: slice_def)
    have r: "drop i syllables \<noteq> []" using i by simp
    have "last (slice syllables 0 i) \<in> set syllables"
      using l by (metis last_in_set slice_def drop_0 in_set_takeD minus_nat.diff_0)
    then have "last (slice syllables 0 i) \<noteq> []" using nonempty by blast
    then obtain sc where sc:
      "analyzeBoundary cfg (slice syllables 0 i) (drop i syllables) (Some syllables) = Inr sc"
      using analyzeBoundary_defined [OF l r] by blast
    obtain sep g1 where ch: "chooseSeparator cfg sc threshold True g = (sep, g1)"
      by (cases "chooseSeparator cfg sc threshold True g") auto
    show ?thesis
      using False sc ch best Cons.IH [OF rest] by (simp add: Let_def)
  qed
qed

lemma scan_fold_pick:
  "scan cfg syllables separators threshold is best g = (Inr r, g') \<Longrightarrow>
   r = fold pick (trace cfg syllables separators threshold is g) best"
proof (induction "is" arbitrary: best g)
  case Nil
  then show ?case by (cases best) auto
next
  case (Cons i rest)
  obtain bs bp bsep where best: "best = (bs, bp, bsep)" by (cases best) auto
  show ?case
  proof (cases "nearby separators i")
    case True
    then show ?thesis using Cons best by simp
  next
    case False
    show ?thesis
    proof (cases "analyzeBoundary cfg (slice syllables 0 i) (drop i syllables) (Some syllables)")
      case (Inl e)
      then show ?thesis using Cons.prems False best by simp
    next
      case (Inr sc)
      obtain sep g1 where ch: "chooseSeparator cfg sc threshold True g = (sep, g1)"
        by (cases "chooseSeparator cfg sc threshold True g") auto
      show ?thesis
      proof (cases "maxScore_of sc > bs \<and> sep \<noteq> []")
        case True
        then have "scan cfg syllables separators threshold rest (maxScore_of sc, int i, sep) g1
                   = (Inr r, g')"
          using Cons.prems False Inr ch best by (simp add: Let_def)
        from Cons.IH [OF this] show ?thesis
          using False Inr ch best True by (simp add: Let_def pick_def)
      next
        case no: False
        then have "scan cfg syllables separators threshold rest (bs, bp, bsep) g1 = (Inr r, g')"
          using Cons.prems False Inr ch best by (auto simp: Let_def)
        from Cons.IH [OF this] show ?thesis
          using False Inr ch best no by (auto simp: Let_def pick_def)
      qed
    qed
  qed
qed

lemma trace_entries:
  "(j, m, s) \<in> set (trace cfg syllables separators threshold is g) \<Longrightarrow>
   j \<in> set is \<and> \<not> nearby separators j \<and>
   (\<exists>sc g0. analyzeBoundary cfg (slice syllables 0 j) (drop j syllables) (Some syllables) = Inr sc \<and>
      m = maxScore_of sc \<and> s = fst (chooseSeparator cfg sc threshold True g0))"
proof (induction "is" arbitrary: g)
  case Nil
  then show ?case by simp
next
  case (Cons i rest)
  show ?case
  proof (cases "nearby separators i")
    case True
    then show ?thesis using Cons by auto
  next
    case False
    show ?thesis
    proof (cases "analyzeBoundary cfg (slice syllables 0 i) (drop i syllables) (Some syllables)")
      case (Inl e)
      then show ?thesis using Cons.prems False by simp
    next
      case (Inr sc)
      obtain sep g1 where ch: "chooseSeparator cfg sc threshold True g = (sep, g1)"
        by (cases "chooseSeparator cfg sc threshold True g") auto
      have "(j, m, s) = (i, maxScore_of sc, sep) \<or>
            (j, m, s) \<in> set (trace cfg syllables separators threshold rest g1)"
        using Cons.prems False Inr ch by (simp add: Let_def)
      then show ?thesis
      proof
        assume "(j, m, s) = (i, maxScore_of sc, sep)"
        then show ?thesis using False Inr ch by (metis Pair_inject fst_conv list.set_intros(1))
      next
        assume "(j, m, s) \<in> set (trace cfg syllables separators threshold rest g1)"
        from Cons.IH [OF this] show ?thesis by auto
      qed
    qed
  qed
qed

lemma fold_pick_origin:
  "fold pick tr best = best \<or>
   (\<exists>c \<in> set tr. fold pick tr best = (fst (snd c), int (fst c), snd (snd c)) \<and> snd (snd c) \<noteq> [] \<and>
      fst best < fst (snd c))"
proof (induction tr arbitrary: best)
  case Nil
  then show ?case by simp
next
  case (Cons c tr)
  obtain i m s where c: "c = (i, m, s)" by (cases c) auto
  obtain bs bp bsep where best: "best = (bs, bp, bsep)" by (cases best) auto
  show ?case
  proof (cases "m > bs \<and> s \<noteq> []")
    case True
    then have p: "pick c best = (m, int i, s)" by (simp add: pick_def c best)
    from Cons.IH [of "pick c best"] show ?thesis
    proof
      assume "fold pick tr (pick c best) = pick c best"
      then show ?thesis using p True c best by auto
    next
      assume "\<exists>c'\<in>set tr. fold pick tr (pick c best) = (fst (snd c'), int (fst c'), snd (snd c')) \<and>
                snd (snd c') \<noteq> [] \<and> fst (pick c best) < fst (snd c')"
      then show ?thesis using p True best by fastforce
    qed
  next
    case False
    then have p: "pick c best = best" by (auto simp: pick_def c best)
    from Cons.IH [of best] show ?thesis using p by auto
  qed
qed

lemma fold_pick_mono: "fst best \<le> fst (fold pick tr best)"
proof (induction tr arbitrary: best)
  case Nil
  then show ?case by simp
next
  case (Cons c tr)
  have "fst best \<le> fst (pick c best)"
    by (cases c; cases best) (auto simp: pick_def)
  also have "\<dots> \<le> fst (fold pick tr (pick c best))" by (rule Cons.IH)
  finally show ?case by simp
qed

lemma fold_pick_max:
  "c \<in> set tr \<Longrightarrow> snd (snd c) \<noteq> [] \<Longrightarrow> fst (snd c) \<le> fst (fold pick tr best)"
proof (induction tr arbitrary: best)
  case Nil
  then show ?case by simp
next
  case (Cons d tr)
  show ?case
  proof (cases "c = d")
    case True
    have "fst (snd c) \<le> fst (pick c best)"
      using Cons.prems(2) by (cases c; cases best) (auto simp: pick_def)
    also have "\<dots> \<le> fst (fold pick tr (pick c best))" by (rule fold_pick_mono)
    finally show ?thesis using True by simp
  next
    case False
    then have "c \<in> set tr" using Cons.prems(1) by simp
    from Cons.IH [OF this Cons.prems(2)] show ?thesis by simp
  qed
qed

lemma placed_ok_Nil: "placed_ok cfg syllables th []"
  by (simp add: placed_ok_def)

lemma placed_ok_snoc:
  assumes "placed_ok cfg syllables th seps"
    and "round_choice cfg syllables seps (threshold_of th (length seps)) g p"
  shows "placed_ok cfg syllables th (seps @ [p])"
  unfolding placed_ok_def
proof (intro allI impI)
  fix k assume "k < length (seps @ [p])"
  then consider "k < length seps" | "k = length seps" by fastforce
  then show "\<exists>g. round_choice cfg syllables (take k (seps @ [p])) (threshold_of th k) g ((seps @ [p]) ! k)"
  proof cases
    case 1
    then show ?thesis using assms(1) by (simp add: placed_ok_def nth_append)
  next
    case 2
    then show ?thesis using assms(2) by auto
  qed
qed

lemma scan_round_choice:
  assumes scan: "scan cfg syllables seps threshold [1..<length syllables] (0, - 1, []) g
                 = (Inr (bs, bp, bsep), g')"
    and accepted: "\<not> (bp = - 1 \<or> bs < threshold)"
  shows "round_choice cfg syllables seps threshold g
           \<lparr>position = nat bp, sep_string = bsep, sep_score = bs\<rparr>"
proof -
  let ?tr = "trace cfg syllables seps threshold [1..<length syllables] g"
  have f: "(bs, bp, bsep) = fold pick ?tr (0, - 1, [])" by (rule scan_fold_pick [OF scan])
  have "fold pick ?tr (0, - 1, []) \<noteq> (0, - 1, [])" using f accepted by auto
  then obtain c where c: "c \<in> set ?tr"
      "fold pick ?tr (0, - 1, []) = (fst (snd c), int (fst c), snd (snd c))" "snd (snd c) \<noteq> []"
    using fold_pick_origin [of ?tr "(0, - 1, [])"] by blast
  have eq: "bs = fst (snd c)" "bp = int (fst c)" "bsep = snd (snd c)" using f c(2) by simp_all
  have "(nat bp, bs, bsep) = c" using eq by simp
  then have mem: "(nat bp, bs, bsep) \<in> set ?tr" using c(1) by simp
  have mx: "\<forall>d \<in> set ?tr. snd (snd d) \<noteq> [] \<longrightarrow> fst (snd d) \<le> bs"
  proof (intro ballI impI)
    fix d assume "d \<in> set ?tr" "snd (snd d) \<noteq> []"
    from fold_pick_max [OF this, of "(0, - 1, [])"] show "fst (snd d) \<le> bs"
      using f by (metis fst_conv)
  qed
  show ?thesis
    unfolding round_choice_def Let_def using mem mx c(3) eq(3) accepted by simp
qed

lemma rounds_placed:
  "rounds cfg syllables th left r seps g = (Inr placedSeps, g') \<Longrightarrow> length seps = r \<Longrightarrow>
   placed_ok cfg syllables th seps \<Longrightarrow>
   placed_ok cfg syllables th placedSeps \<and> length placedSeps \<le> r + left \<and>
   (\<exists>rest. placedSeps = seps @ rest)"
proof (induction left arbitrary: r seps g)
  case 0
  then show ?case by simp
next
  case (Suc left)
  let ?th = "threshold_of th r"
  obtain res g1 where sc: "scan cfg syllables seps ?th [1..<length syllables] (0, - 1, []) g = (res, g1)"
    by (cases "scan cfg syllables seps ?th [1..<length syllables] (0, - 1, []) g") auto
  show ?case
  proof (cases res)
    case (Inl e)
    then show ?thesis using Suc.prems(1) sc by (simp add: Let_def)
  next
    case (Inr best)
    obtain bs bp bsep where best: "best = (bs, bp, bsep)" by (cases best) auto
    show ?thesis
    proof (cases "bp = - 1 \<or> bs < ?th")
      case True
      then have "placedSeps = seps" using Suc.prems(1) sc Inr best by (auto simp: Let_def)
      then show ?thesis using Suc.prems by simp
    next
      case False
      let ?p = "\<lparr>position = nat bp, sep_string = bsep, sep_score = bs\<rparr>"
      have step: "rounds cfg syllables th left (r + 1) (seps @ [?p]) g1 = (Inr placedSeps, g')"
        using Suc.prems(1) sc Inr best False by (auto simp: Let_def)
      have "round_choice cfg syllables seps ?th g ?p"
        using scan_round_choice [of cfg syllables seps ?th g bs bp bsep g1] sc Inr best False
        by simp
      then have ok: "placed_ok cfg syllables th (seps @ [?p])"
        using placed_ok_snoc [OF Suc.prems(3)] Suc.prems(2) by simp
      have len: "length (seps @ [?p]) = r + 1" using Suc.prems(2) by simp
      from Suc.IH [OF step len ok] show ?thesis by auto
    qed
  qed
qed

lemma rounds_total:
  assumes "\<forall>s \<in> set syllables. s \<noteq> []"
  shows "\<exists>placedSeps g'. rounds cfg syllables th left r seps g = (Inr placedSeps, g')"
proof (induction left arbitrary: r seps g)
  case 0
  then show ?case by simp
next
  case (Suc left)
  let ?th = "threshold_of th r"
  have "\<forall>i \<in> set [1..<length syllables]. 1 \<le> i \<and> i < length syllables" by simp
  from scan_total [OF assms this]
  obtain best g1 where sc:
    "scan cfg syllables seps ?th [1..<length syllables] (0, - 1, []) g = (Inr best, g1)"
    by blast
  obtain bs bp bsep where best: "best = (bs, bp, bsep)" by (cases best) auto
  show ?case
    using sc best Suc.IH by (simp add: Let_def)
qed

lemma round_choice_facts:
  assumes "round_choice cfg syllables seps threshold g p"
  shows "1 \<le> position p" and "position p < length syllables"
    and "\<not> nearby seps (position p)"
    and "sep_string p \<in> separator_strings"
    and "threshold \<le> sep_score p"
    and "\<exists>sc. analyzeBoundary cfg (slice syllables 0 (position p)) (drop (position p) syllables)
                 (Some syllables) = Inr sc \<and> sep_score p = maxScore_of sc"
proof -
  let ?tr = "trace cfg syllables seps threshold [1..<length syllables] g"
  have mem: "(position p, sep_score p, sep_string p) \<in> set ?tr" and ne: "sep_string p \<noteq> []"
    and th: "threshold \<le> sep_score p"
    using assms by (simp_all add: round_choice_def Let_def)
  from trace_entries [OF mem]
  obtain sc g0 where e: "position p \<in> set [1..<length syllables]" "\<not> nearby seps (position p)"
    "analyzeBoundary cfg (slice syllables 0 (position p)) (drop (position p) syllables)
       (Some syllables) = Inr sc"
    "sep_score p = maxScore_of sc" "sep_string p = fst (chooseSeparator cfg sc threshold True g0)"
    by blast
  show "1 \<le> position p" "position p < length syllables" using e(1) by simp_all
  show "\<not> nearby seps (position p)" by (rule e(2))
  show "sep_string p \<in> separator_strings"
    using chooseSeparator_range [of cfg sc threshold True g0] e(5) ne by auto
  show "threshold \<le> sep_score p" by (rule th)
  show "\<exists>sc. analyzeBoundary cfg (slice syllables 0 (position p)) (drop (position p) syllables)
                 (Some syllables) = Inr sc \<and> sep_score p = maxScore_of sc"
    using e(3,4) by blast
qed

lemma placed_ok_positions:
  assumes "placed_ok cfg syllables th seps" and "p \<in> set seps"
  shows "1 \<le> position p \<and> position p < length syllables \<and> sep_string p \<in> separator_strings"
proof -
  obtain k where k: "k < length seps" "seps ! k = p" using assms(2) by (auto simp: in_set_conv_nth)
  then obtain g where "round_choice cfg syllables (take k seps) (threshold_of th k) g p"
    using assms(1) by (auto simp: placed_ok_def)
  from round_choice_facts(1,2,4) [OF this] show ?thesis by simp
qed

lemma placed_ok_apart:
  assumes "placed_ok cfg syllables th seps" and "a < b" and "b < length seps"
  shows "\<bar>int (position (seps ! a)) - int (position (seps ! b))\<bar> > 1"
proof -
  obtain g where "round_choice cfg syllables (take b seps) (threshold_of th b) g (seps ! b)"
    using assms(1,3) by (auto simp: placed_ok_def)
  from round_choice_facts(3) [OF this]
  have n: "\<not> nearby (take b seps) (position (seps ! b))" .
  have "seps ! a \<in> set (take b seps)"
    using assms(2,3) by (metis in_set_conv_nth length_take min.absorb2 less_imp_le nth_take)
  then show ?thesis using n by (auto simp: nearby_def)
qed

lemma placed_ok_distinct:
  assumes "placed_ok cfg syllables th seps"
  shows "distinct (map position seps)"
proof -
  have "position (seps ! a) \<noteq> position (seps ! b)" if "a < b" "b < length seps" for a b
    using placed_ok_apart [OF assms that] by auto
  then have "map position seps ! a \<noteq> map position seps ! b"
    if "a < length seps" "b < length seps" "a \<noteq> b" for a b
    using that by (cases "a < b") (auto simp: not_less le_less dest: not_sym)
  then show ?thesis by (simp add: distinct_conv_nth)
qed

lemma map_nth_upt_slice: "b \<le> length xs \<Longrightarrow> map (\<lambda>i. xs ! i) [a..<b] = slice xs a b"
  by (rule nth_equalityI) (auto simp: slice_def)

lemma map_nth_upt_drop: "map (\<lambda>i. xs ! i) [a..<length xs] = drop a xs"
  by (rule nth_equalityI) auto

lemma separator_at_none:
  "\<forall>p \<in> set ps. position p \<noteq> i \<Longrightarrow> separator_at ps i = []"
  by (simp add: separator_at_def find_None_iff [THEN iffD2])

lemma separator_at_Cons:
  "separator_at (p # ps) i = (if position p = i then sep_string p else separator_at ps i)"
  by (simp add: separator_at_def)

lemma build_loop_decorate:
  assumes "sorted (map position ps)" and "distinct (map position ps)"
    and "\<forall>p \<in> set ps. lastPos < position p \<and> position p < length syllables"
    and "lastPos \<le> length syllables"
  shows "build_loop syllables ps lastPos result
         = result @ concat (map (\<lambda>i. separator_at ps i @ syllables ! i) [lastPos..<length syllables])"
  using assms
proof (induction ps arbitrary: lastPos result)
  case Nil
  have "map (\<lambda>i. separator_at [] i @ syllables ! i) [lastPos..<length syllables]
        = map (\<lambda>i. syllables ! i) [lastPos..<length syllables]"
    by (simp add: separator_at_def)
  then show ?case by (simp add: join_Nil map_nth_upt_drop)
next
  case (Cons p rest)
  let ?n = "length syllables"
  let ?q = "position p"
  have q: "lastPos < ?q" "?q < ?n" using Cons.prems(3) by simp_all
  have later: "\<forall>p' \<in> set rest. ?q < position p' \<and> position p' < ?n"
  proof
    fix p' assume p': "p' \<in> set rest"
    then have "?q \<le> position p'" using Cons.prems(1) by simp
    moreover have "?q \<noteq> position p'" using Cons.prems(2) p' by auto
    ultimately show "?q < position p' \<and> position p' < ?n" using Cons.prems(3) p' by simp
  qed
  have ih: "build_loop syllables rest ?q r
            = r @ concat (map (\<lambda>i. separator_at rest i @ syllables ! i) [?q..<?n])" for r
    using Cons.IH [of ?q r] Cons.prems(1,2) later q by simp
  have split: "[lastPos..<?n] = [lastPos..<?q] @ ?q # [Suc ?q..<?n]"
    using q by (metis less_imp_le_nat upt_add_eq_append le_add_diff_inverse upt_conv_Cons)
  have before: "map (\<lambda>i. separator_at (p # rest) i @ syllables ! i) [lastPos..<?q]
                = slice syllables lastPos ?q"
  proof -
    have "separator_at (p # rest) i = []" if "i < ?q" for i
      using that later by (intro separator_at_none) auto
    then have "map (\<lambda>i. separator_at (p # rest) i @ syllables ! i) [lastPos..<?q]
               = map (\<lambda>i. syllables ! i) [lastPos..<?q]"
      by simp
    then show ?thesis using q by (simp add: map_nth_upt_slice)
  qed
  have after: "map (\<lambda>i. separator_at (p # rest) i @ syllables ! i) [Suc ?q..<?n]
               = map (\<lambda>i. separator_at rest i @ syllables ! i) [Suc ?q..<?n]"
    by (simp add: separator_at_Cons)
  have at_q: "separator_at rest ?q = []"
    using later by (intro separator_at_none) auto
  have splitq: "[?q..<?n] = ?q # [Suc ?q..<?n]" using q by (simp add: upt_conv_Cons)
  have "build_loop syllables (p # rest) lastPos result
        = (result @ join [] (slice syllables lastPos ?q) @ sep_string p)
          @ concat (map (\<lambda>i. separator_at rest i @ syllables ! i) [?q..<?n])"
    by (simp add: ih)
  also have "\<dots> = result @ concat (slice syllables lastPos ?q) @ sep_string p @ syllables ! ?q
                   @ concat (map (\<lambda>i. separator_at rest i @ syllables ! i) [Suc ?q..<?n])"
    by (simp add: join_Nil splitq at_q)
  also have "\<dots> = result @ concat (map (\<lambda>i. separator_at (p # rest) i @ syllables ! i) [lastPos..<?n])"
  proof -
    let ?F = "\<lambda>i. separator_at (p # rest) i @ syllables ! i"
    have "concat (map ?F [lastPos..<?n])
          = concat (map ?F [lastPos..<?q]) @ ?F ?q @ concat (map ?F [Suc ?q..<?n])"
      by (subst split) simp
    moreover have "?F ?q = sep_string p @ syllables ! ?q" by (simp add: separator_at_Cons)
    ultimately show ?thesis by (simp only: before after append_assoc)
  qed
  finally show ?case .
qed

lemma find_distinct_key:
  "distinct (map f xs) \<Longrightarrow> p \<in> set xs \<Longrightarrow> find (\<lambda>x. f x = f p) xs = Some p"
  by (induction xs) (auto simp: image_iff)

lemma separator_at_set:
  assumes "distinct (map position xs)" and "distinct (map position ys)" and "set xs = set ys"
  shows "separator_at xs i = separator_at ys i"
proof (cases "\<exists>p \<in> set xs. position p = i")
  case True
  then obtain p where p: "p \<in> set xs" "position p = i" by blast
  have "find (\<lambda>x. position x = i) xs = Some p"
    using find_distinct_key [OF assms(1) p(1)] p(2) by simp
  moreover have "find (\<lambda>x. position x = i) ys = Some p"
    using find_distinct_key [OF assms(2), of p] p assms(3) by simp
  ultimately show ?thesis by (simp add: separator_at_def)
next
  case False
  then show ?thesis using assms(3) by (simp add: separator_at_none)
qed

lemma build_sorted_decorate:
  assumes "distinct (map position seps)"
    and "\<forall>p \<in> set seps. 1 \<le> position p \<and> position p < length syllables"
  shows "build_loop syllables (sort_key position seps) 0 [] = decorate syllables seps"
proof -
  let ?ps = "sort_key position seps"
  have d: "distinct (map position ?ps)"
    using assms(1) by (metis distinct_map distinct_sort set_sort)
  have s: "sorted (map position ?ps)" by (rule sorted_sort_key)
  have r: "\<forall>p \<in> set ?ps. 0 < position p \<and> position p < length syllables"
    using assms(2) by auto
  have "build_loop syllables ?ps 0 []
        = [] @ concat (map (\<lambda>i. separator_at ?ps i @ syllables ! i) [0..<length syllables])"
    by (rule build_loop_decorate [OF s d r]) simp
  moreover have "separator_at ?ps i = separator_at seps i" for i
    by (rule separator_at_set [OF d assms(1)]) simp
  ultimately show ?thesis by (simp add: decorate_def)
qed

lemma decorate_Nil: "decorate syllables [] = concat syllables"
proof -
  have "map (\<lambda>i. separator_at [] i @ syllables ! i) [0..<length syllables] = syllables"
    by (simp add: separator_at_def map_nth)
  then show ?thesis by (simp add: decorate_def)
qed

lemma lower_not_upper: "c \<in> set lower_letters \<Longrightarrow> c \<notin> set upper_letters"
  unfolding lower_letters_def upper_letters_def by auto

lemma lower_letter_fixed: "is_lower_letter c \<Longrightarrow> toLowerCase_char c = c"
proof -
  assume "is_lower_letter c"
  then have "c \<notin> set upper_letters" by (simp add: is_lower_letter_def lower_not_upper)
  moreover have "length upper_letters = length lower_letters"
    by (simp add: lower_letters_def upper_letters_def)
  ultimately have "map_of (zip upper_letters lower_letters) c = None"
    by (simp add: map_of_zip_is_None)
  then show ?thesis by (simp add: toLowerCase_char_def)
qed

lemma separator_strings_eq:
  "separator_strings = {[CHR 0x27], ''. '', ''-'', '' '', ''~'', '':''}"
  by (simp add: separator_strings_def separatorMap_def)

lemma clean_each_separator:
  "clean [CHR 0x27] = []" "clean ''. '' = []" "clean ''-'' = []" "clean '' '' = []"
  "clean ''~'' = []" "clean '':'' = []"
  by (simp_all add: clean_def toLowerCase_def toLowerCase_char_def is_lower_letter_def
      lower_letters_def upper_letters_def)

lemma clean_separator: "sep \<in> separator_strings \<Longrightarrow> clean sep = []"
  unfolding separator_strings_eq using clean_each_separator by blast

text \<open>The whole engine: what \<open>addSmartSeparators\<close> returns on non-empty syllables.\<close>

lemma addSmartSeparators_decorate:
  assumes "\<forall>s \<in> set syllables. s \<noteq> []"
  shows "\<exists>placedSeps g'.
     addSmartSeparators cfg options syllables g = (Inr (decorate syllables placedSeps), g') \<and>
     length placedSeps \<le> or_else (opt_maxSeparators options) (maxSeparators (config_separators cfg)) \<and>
     placed_ok cfg syllables
       (or_else (opt_thresholds options) (thresholds (config_separators cfg))) placedSeps \<and>
     (length syllables < 2 \<or> \<not> enabled (config_separators cfg) \<longrightarrow> placedSeps = [])"
proof -
  let ?m = "or_else (opt_maxSeparators options) (maxSeparators (config_separators cfg))"
  let ?th = "or_else (opt_thresholds options) (thresholds (config_separators cfg))"
  show ?thesis
  proof (cases "length syllables < 2 \<or> \<not> enabled (config_separators cfg)")
    case True
    then have "addSmartSeparators cfg options syllables g = (Inr (decorate syllables []), g)"
      by (auto simp: addSmartSeparators_def Let_def join_Nil decorate_Nil)
    then show ?thesis using True by (auto simp: placed_ok_Nil)
  next
    case False
    obtain placedSeps g' where r: "rounds cfg syllables ?th ?m 0 [] g = (Inr placedSeps, g')"
      using rounds_total [OF assms] by blast
    have p: "placed_ok cfg syllables ?th placedSeps" "length placedSeps \<le> ?m"
      using rounds_placed [OF r _ placed_ok_Nil] by simp_all
    have "build_loop syllables (sort_key position placedSeps) 0 [] = decorate syllables placedSeps"
      using build_sorted_decorate [OF placed_ok_distinct [OF p(1)]] placed_ok_positions [OF p(1)]
      by blast
    then have "addSmartSeparators cfg options syllables g = (Inr (decorate syllables placedSeps), g')"
      using False r by (auto simp: addSmartSeparators_def Let_def join_Nil decorate_Nil)
    then show ?thesis using p False by blast
  qed
qed

lemma clean_append: "clean (xs @ ys) = clean xs @ clean ys"
  by (simp add: clean_def toLowerCase_def)

lemma clean_lowercase: "\<forall>c \<in> set s. is_lower_letter c \<Longrightarrow> clean s = s"
  by (induction s) (simp_all add: clean_def toLowerCase_def lower_letter_fixed)

lemma clean_concat: "clean (concat xs) = concat (map clean xs)"
  by (induction xs) (simp_all add: clean_append, simp add: clean_def toLowerCase_def)

lemma clean_decorate:
  assumes "\<forall>s \<in> set syllables. \<forall>c \<in> set s. is_lower_letter c"
    and "\<forall>p \<in> set seps. sep_string p \<in> separator_strings"
  shows "clean (decorate syllables seps) = concat syllables"
proof -
  have sep: "clean (separator_at seps i) = []" for i
  proof (cases "find (\<lambda>p. position p = i) seps")
    case None
    then show ?thesis by (simp add: separator_at_def clean_def toLowerCase_def)
  next
    case (Some p)
    then have "p \<in> set seps" by (auto simp: find_Some_iff)
    then show ?thesis using Some assms(2) by (simp add: separator_at_def clean_separator)
  qed
  have "map (clean \<circ> (\<lambda>i. separator_at seps i @ syllables ! i)) [0..<length syllables]
        = map (\<lambda>i. syllables ! i) [0..<length syllables]"
  proof (rule map_cong [OF refl])
    fix i assume "i \<in> set [0..<length syllables]"
    then have "syllables ! i \<in> set syllables" by simp
    then have "clean (syllables ! i) = syllables ! i" using assms(1) by (simp add: clean_lowercase)
    then show "(clean \<circ> (\<lambda>i. separator_at seps i @ syllables ! i)) i = syllables ! i"
      by (simp add: clean_append sep)
  qed
  moreover have "clean (decorate syllables seps)
        = concat (map (clean \<circ> (\<lambda>i. separator_at seps i @ syllables ! i)) [0..<length syllables])"
    by (simp only: decorate_def clean_concat map_map)
  ultimately have "clean (decorate syllables seps) = concat (map (\<lambda>i. syllables ! i) [0..<length syllables])"
    by (simp only:)
  then show ?thesis by (simp add: map_nth)
qed

text \<open>
  The condition is also necessary: where it fails, a sequence of two syllables of the
  inventory is not segmented into itself.
\<close>

lemma prefix_unambiguous_necessary:
  assumes shape: "syllable_shape db" and amb: "\<not> prefix_unambiguous db"
  shows "\<exists>s t. s \<in> set db \<and> t \<in> set db \<and> parseVersionToSyllables db (s @ t) \<noteq> Inr [s, t]"
proof -
  from amb obtain s t u where stu: "s \<in> set db" "t \<in> set db" "u \<in> set db"
      "length s < length u" "take (length u) (s @ t) = u"
    unfolding prefix_unambiguous_def by blast
  have lu: "length u \<in> {2, 3, 4}" and ls: "2 \<le> length s" "length s \<le> 4"
    using shape stu(1,3) by (auto simp: syllable_shape_def)
  have fit: "length u \<le> length (s @ t)"
    using stu(5) by (metis length_take min_def linorder_le_cases take_all)
  have pre: "is_prefix_syllable db (s @ t) (length u)"
    using fit stu(3,5) by (simp add: is_prefix_syllable_def)
  have "parseVersionToSyllables db (s @ t) \<noteq> Inr [s, t]"
  proof
    assume "parseVersionToSyllables db (s @ t) = Inr [s, t]"
    then have "greedy db (clean (s @ t)) [s, t] []" by (simp add: parse_Inr_iff)
    moreover have "clean (s @ t) = s @ t"
      using shape stu(1,2) by (intro clean_lowercase) (auto simp: syllable_shape_def)
    ultimately have "greedy db (s @ t) [s, t] []" by simp
    then obtain l where l: "longest_match db (s @ t) l" "take l (s @ t) = s"
      by (subst (asm) greedy.simps) auto
    have "l \<le> length (s @ t)" using l(1) by (simp add: longest_match_def is_prefix_syllable_def)
    then have "l = length s" using l(2) by (metis length_take min.absorb2)
    then have "\<not> is_prefix_syllable db (s @ t) (length u)"
      using l(1) lu stu(4) unfolding longest_match_def by blast
    then show False using pre by contradiction
  qed
  then show ?thesis using stu(1,2) by blast
qed

subsection \<open>Evaluations on the example configuration\<close>

lemma analyze_brak_drak:
  "analyzeBoundary example_config [''brak''] [''drak''] (Some [''brak'', ''drak''])
   = Inr scores_brak_drak"
  by code_simp

lemma choose_brak_drak_first:
  "chooseSeparator example_config scores_brak_drak 100 True None
   = (''-'', Some (balancer_with [''hyphen'']))"
  by code_simp








lemma example_settings:
  "enabled (config_separators example_config)"
  "maxSeparators (config_separators example_config) = 2"
  "thresholds (config_separators example_config) = \<lparr>first = 100, second = 70, third = 50\<rparr>"
  "digitInterleaving (config_encoding example_config)"
  by (simp_all add: example_config_def)

lemma maxScore_examples:
  "maxScore_of scores_brak_drak = 345" "maxScore_of scores_bu_brak = 280"
  by (simp_all add: maxScore_of_def scores_brak_drak_def scores_bu_brak_def)

lemma upt_1_2: "[1..<2] = [1]"
  by (simp add: upt_rec)


lemma smart_brak_drak_first:
  "addSmartSeparators example_config no_options [''brak'', ''drak''] None
   = (Inr ''brak-drak'', Some (balancer_with [''hyphen'']))"
  by (simp add: addSmartSeparators_def Let_def example_settings no_options_def or_else_def
      threshold_of_def upt_1_2 nearby_def slice_def analyze_brak_drak choose_brak_drak_first
      maxScore_examples eval_nat_numeral)








lemma example_inventory_ok:
  "syllable_shape [''brak'', ''drak'']" "prefix_unambiguous [''brak'', ''drak'']"
  by (simp_all add: syllable_shape_def prefix_unambiguous_def is_lower_letter_def lower_letters_def)

text \<open>
  \<^bold>\<open>Claim C3, as the code has it.\<close> Let the inventory consist of syllables of 2 to 4
  lowercase letters and be prefix-unambiguous (no longer syllable is a prefix of a shorter
  syllable followed by a syllable). For every non-empty sequence of syllables of the
  inventory, \<^verbatim>\<open>addSmartSeparators\<close> returns a string; lower-casing it and deleting every
  character that is not a lowercase letter gives the concatenation of the syllables, and
  the parser segments the string into exactly the original sequence.
\<close>

theorem C3_stripping_invariance:
  assumes "syllable_shape db" and "prefix_unambiguous db"
    and "set syllables \<subseteq> set db" and "syllables \<noteq> []"
  shows "\<exists>out g'. addSmartSeparators cfg options syllables g = (Inr out, g') \<and>
           filter is_lower_letter (toLowerCase out) = concat syllables \<and>
           parseVersionToSyllables db out = Inr syllables"
proof -
  have letters: "\<forall>s \<in> set syllables. \<forall>c \<in> set s. is_lower_letter c"
    using assms(1,3) by (auto simp: syllable_shape_def)
  have nonempty: "\<forall>s \<in> set syllables. s \<noteq> []"
  proof
    fix s assume "s \<in> set syllables"
    then have "2 \<le> length s" using assms(1,3) by (auto simp: syllable_shape_def)
    then show "s \<noteq> []" by auto
  qed
  from addSmartSeparators_decorate [OF nonempty, of cfg options g]
  obtain placedSeps g' where
    out: "addSmartSeparators cfg options syllables g = (Inr (decorate syllables placedSeps), g')"
    and ok: "placed_ok cfg syllables
               (or_else (opt_thresholds options) (thresholds (config_separators cfg))) placedSeps"
    by blast
  have "\<forall>p \<in> set placedSeps. sep_string p \<in> separator_strings"
    using placed_ok_positions [OF ok] by blast
  then have c: "clean (decorate syllables placedSeps) = concat syllables"
    by (rule clean_decorate [OF letters])
  then have "parseVersionToSyllables db (decorate syllables placedSeps) = Inr syllables"
    by (rule parse_concat [OF assms])
  then show ?thesis using out c by (auto simp: clean_def)
qed

theorem C3_stripping_invariance_witness:
  "syllable_shape [''brak'', ''drak''] \<and> prefix_unambiguous [''brak'', ''drak''] \<and>
   addSmartSeparators example_config no_options [''brak'', ''drak''] None
     = (Inr ''brak-drak'', Some (balancer_with [''hyphen''])) \<and>
   parseVersionToSyllables [''brak'', ''drak''] ''brak-drak'' = Inr [''brak'', ''drak'']"
proof -
  obtain out g' where
    "addSmartSeparators example_config no_options [''brak'', ''drak''] None = (Inr out, g')"
    "parseVersionToSyllables [''brak'', ''drak''] out = Inr [''brak'', ''drak'']"
    using C3_stripping_invariance [OF example_inventory_ok, of "[''brak'', ''drak'']"
        example_config no_options None]
    by auto
  then show ?thesis
    using example_inventory_ok by (simp add: smart_brak_drak_first)
qed

text \<open>
  The empty sequence is decorated to the empty string, which the parser rejects with its
  first error instead of returning the empty sequence.
\<close>

theorem C3_empty_sequence_counterexample:
  "syllable_shape [''brak'', ''drak''] \<and> prefix_unambiguous [''brak'', ''drak''] \<and>
   addSmartSeparators example_config no_options [] None = (Inr [], None) \<and>
   parseVersionToSyllables [''brak'', ''drak''] [] = Inl EmptyVersion"
  using example_inventory_ok
  by (simp add: addSmartSeparators_def Let_def example_settings parseVersionToSyllables_def)









end
